theory Spec2Isabelle
  imports Main
begin

section \<open>Python values and exceptions\<close>

text \<open>
  The program is the single module \<^verbatim>\<open>cut_tree.py\<close>. Python strings and byte strings are
  both modelled as lists of 8-bit characters (code points 0 to 255); on that range the
  character classes used by the module (\<^verbatim>\<open>\d\<close>, \<^verbatim>\<open>.\<close>, whitespace) are exactly the ones
  defined below. A Python value that the module passes around untyped is a \<open>pyval\<close>.
\<close>

datatype pyval = Str string | Bytes string | StrList "string list" | PyInt int

text \<open>
  An exception is a value. A formatted message is kept as the format template together
  with the arguments of \<^verbatim>\<open>.format\<close>.
\<close>

datatype error =
    ValueError string "pyval list"
  | AssertionError string "pyval list"
  | AttributeError
  | IndexError
  | TypeError
  | ClientResponseError nat
  | ClientConnectionError
  | OSError string

section \<open>Regular expressions (module \<^verbatim>\<open>re\<close>)\<close>

text \<open>
  The fragment of Python's regular expressions that the two patterns of the module use:
  literal text, a character class repeated greedily between a lower and an optional upper
  bound (\<^verbatim>\<open>\d{4}\<close>, \<^verbatim>\<open>\d{5,6}\<close>, \<^verbatim>\<open>\d*\<close>, \<^verbatim>\<open>.*\<close>), sequencing and capturing groups.
  \<open>rmatch r s\<close> lists every way of matching \<open>r\<close> at the start of \<open>s\<close> in the order in
  which the backtracking matcher tries them: the text consumed, the groups captured and
  the rest of the input.
\<close>

datatype cls = Digit | AnyChar

fun in_cls :: "cls \<Rightarrow> char \<Rightarrow> bool" where
  "in_cls Digit c = (c \<in> set ''0123456789'')"
| "in_cls AnyChar c = (c \<noteq> CHR 0x0A)"

datatype re = Lit string | Rep cls nat "nat option" | Seq re re | Group re

definition rep_matches :: "cls \<Rightarrow> nat \<Rightarrow> nat option \<Rightarrow> string \<Rightarrow> (string \<times> string list \<times> string) list" where
  "rep_matches c lo hi s =
     (let n = length (takeWhile (in_cls c) s);
          k = (case hi of None \<Rightarrow> n | Some h \<Rightarrow> min h n)
      in map (\<lambda>j. (take j s, [], drop j s)) (rev [lo..<Suc k]))"

fun rmatch :: "re \<Rightarrow> string \<Rightarrow> (string \<times> string list \<times> string) list" where
  "rmatch (Lit w) s =
     (if take (length w) s = w then [(w, [], drop (length w) s)] else [])"
| "rmatch (Rep c lo hi) s = rep_matches c lo hi s"
| "rmatch (Seq r1 r2) s =
     concat (map (\<lambda>(u1, g1, t1). map (\<lambda>(u2, g2, t2). (u1 @ u2, g1 @ g2, t2)) (rmatch r2 t1))
                 (rmatch r1 s))"
| "rmatch (Group r) s = map (\<lambda>(u, g, t). (u, u # g, t)) (rmatch r s)"

text \<open>
  \<^verbatim>\<open>re.search\<close>: the first position at which the pattern matches, and there the first
  match in backtracking order. The match object is the list of its groups, group 0 (the
  whole match) first; \<open>None\<close> is Python's \<^verbatim>\<open>None\<close>.
\<close>

fun re_search :: "re \<Rightarrow> string \<Rightarrow> string list option" where
  "re_search r [] = (case rmatch r [] of (u, g, t) # _ \<Rightarrow> Some (u # g) | [] \<Rightarrow> None)"
| "re_search r (x # xs) =
     (case rmatch r (x # xs) of (u, g, t) # _ \<Rightarrow> Some (u # g) | [] \<Rightarrow> re_search r xs)"

definition m_group :: "string list \<Rightarrow> nat \<Rightarrow> error + string" where
  "m_group m i = (if i < length m then Inr (m ! i) else Inl IndexError)"

section \<open>Module constants\<close>

definition ARXIV_ABS_URL_BASE :: string where
  "ARXIV_ABS_URL_BASE = ''https://arxiv.org/abs/''"

definition ARXIV_PDF_URL_BASE :: string where
  "ARXIV_PDF_URL_BASE = ''https://arxiv.org/pdf/''"

definition FIND_TITLE_REGEX :: re where
  "FIND_TITLE_REGEX =
     Seq (Lit ''<title>['')
    (Seq (Group (Seq (Rep Digit 0 None) (Seq (Lit ''.'') (Rep Digit 0 None))))
    (Seq (Lit '']'')
    (Seq (Group (Rep AnyChar 0 None))
         (Lit ''</title>''))))"

definition FIND_ID_REGEX :: re where
  "FIND_ID_REGEX = Seq (Rep Digit 4 (Some 4)) (Seq (Lit ''.'') (Rep Digit 5 (Some 6)))"

section \<open>String methods\<close>

text \<open>\<^verbatim>\<open>str.strip()\<close> removes leading and trailing whitespace (\<^verbatim>\<open>str.isspace\<close>).\<close>

definition is_space :: "char \<Rightarrow> bool" where
  "is_space c = (c \<in> set [CHR 0x09, CHR 0x0A, CHR 0x0B, CHR 0x0C, CHR 0x0D, CHR 0x1C,
                            CHR 0x1D, CHR 0x1E, CHR 0x1F, CHR 0x20, CHR 0x85, CHR 0xA0])"

definition strip :: "string \<Rightarrow> string" where
  "strip s = rev (dropWhile is_space (rev (dropWhile is_space s)))"

text \<open>\<^verbatim>\<open>line.rstrip('\n')\<close> removes every trailing newline.\<close>

definition rstrip_nl :: "string \<Rightarrow> string" where
  "rstrip_nl s = rev (dropWhile (\<lambda>c. c = CHR 0x0A) (rev s))"

text \<open>\<^verbatim>\<open>s.split(',')\<close>: the pieces between the separators, empty pieces included.\<close>

fun split_str :: "char \<Rightarrow> string \<Rightarrow> string list" where
  "split_str c [] = [[]]"
| "split_str c (x # xs) =
     (if x = c then [] # split_str c xs
      else (case split_str c xs of y # ys \<Rightarrow> (x # y) # ys | [] \<Rightarrow> [[x]]))"

text \<open>Iterating over a text file yields its lines, each with its newline.\<close>

fun file_lines :: "string \<Rightarrow> string list" where
  "file_lines [] = []"
| "file_lines (x # xs) =
     (if x = CHR 0x0A then [x] # file_lines xs
      else (case file_lines xs of l # ls \<Rightarrow> (x # l) # ls | [] \<Rightarrow> [[x]]))"

text \<open>\<^verbatim>\<open>os.path.join\<close> on POSIX paths, for two components.\<close>

definition path_join :: "string \<Rightarrow> string \<Rightarrow> string" where
  "path_join a b =
     (if take 1 b = ''/'' then b
      else if a = [] \<or> last a = CHR ''/'' then a @ b
      else a @ ''/'' @ b)"

section \<open>The network session\<close>

text \<open>
  The shared \<^verbatim>\<open>aiohttp.ClientSession\<close> is a function from the requested URL to the
  outcome of the GET: a connection error or a response. \<^verbatim>\<open>resp.text()\<close> is the body as
  a string and \<^verbatim>\<open>resp.read()\<close> the body as bytes. Every coroutine returns, beside its result,
  the events it caused, in order: the requests it issued and the lines it logged at level
  INFO (the logger drops \<^verbatim>\<open>log.debug\<close>).
\<close>

record response =
  status :: nat
  body :: string

type_synonym session = "string \<Rightarrow> error + response"

datatype event = Request string | LogInfo string "pyval list"

definition raise_for_status :: "response \<Rightarrow> error + unit" where
  "raise_for_status resp =
     (if 400 \<le> status resp then Inl (ClientResponseError (status resp)) else Inr ())"

definition get_pdf_file :: "session \<Rightarrow> string \<Rightarrow> (error + string) \<times> event list" where
  "get_pdf_file session aid =
     (let url = ARXIV_PDF_URL_BASE @ aid in
      case session url of
        Inl e \<Rightarrow> (Inl e, [Request url])
      | Inr resp \<Rightarrow>
          (case raise_for_status resp of
             Inl e \<Rightarrow> (Inl e, [Request url])
           | Inr _ \<Rightarrow> (Inr (body resp), [Request url])))"

definition get_pdf_name :: "session \<Rightarrow> string \<Rightarrow> (error + string \<times> string) \<times> event list" where
  "get_pdf_name session aid =
     (let url = ARXIV_ABS_URL_BASE @ aid in
      case session url of
        Inl e \<Rightarrow> (Inl e, [Request url])
      | Inr resp \<Rightarrow>
          (case raise_for_status resp of
             Inl e \<Rightarrow> (Inl e, [Request url])
           | Inr _ \<Rightarrow>
               (let xml = body resp in
                case re_search FIND_TITLE_REGEX xml of
                  None \<Rightarrow> (Inl AttributeError, [Request url])
                | Some m \<Rightarrow>
                    (case m_group m 1 of
                       Inl e \<Rightarrow> (Inl e, [Request url])
                     | Inr g1 \<Rightarrow>
                         (case m_group m 2 of
                            Inl e \<Rightarrow> (Inl e, [Request url])
                          | Inr g2 \<Rightarrow> (Inr (g1, strip g2), [Request url]))))))"

section \<open>The identifier extractor\<close>

definition get_article_id :: "string \<Rightarrow> error + string" where
  "get_article_id line =
     (case re_search FIND_ID_REGEX line of
        Some m \<Rightarrow> m_group m 0
      | None \<Rightarrow> Inl (ValueError ''invalid input {}'' [Str line]))"

section \<open>The article pipeline\<close>

text \<open>
  The \<^verbatim>\<open>assert\<close> raises \<^verbatim>\<open>AssertionError\<close> (the interpreter runs without \<^verbatim>\<open>-O\<close>).
  The result is the Python tuple \<^verbatim>\<open>(pdf_file, text_title)\<close>.
\<close>

definition process_one_article :: "session \<Rightarrow> string \<Rightarrow> (error + pyval \<times> pyval) \<times> event list" where
  "process_one_article session article_uri =
     (case get_article_id article_uri of
        Inl e \<Rightarrow> (Inl e, [])
      | Inr aid \<Rightarrow>
          (let tr0 = [LogInfo ''processing article {}'' [Str aid]] in
           case get_pdf_name session aid of
             (Inl e, tr1) \<Rightarrow> (Inl e, tr0 @ tr1)
           | (Inr (parsed_aid, text_title), tr1) \<Rightarrow>
               if aid \<noteq> parsed_aid
               then (Inl (AssertionError
                       ''id {} obtained from input does not match id {} from server''
                       [Str aid, Str parsed_aid]), tr0 @ tr1)
               else (case get_pdf_file session aid of
                       (Inl e, tr2) \<Rightarrow> (Inl e, tr0 @ tr1 @ tr2)
                     | (Inr pdf_file, tr2) \<Rightarrow>
                         (Inr (Bytes pdf_file, Str text_title), tr0 @ tr1 @ tr2))))"

section \<open>The batch coordinator\<close>

text \<open>
  \<^verbatim>\<open>asyncio.as_completed\<close> yields the tasks in the order in which they complete. That order
  is decided by the network, not by the program: \<open>delay k\<close> is the time at which the task
  of line \<open>k\<close> completes, and the tasks are yielded by increasing completion time. Every
  permutation of the tasks is the completion order of some \<open>delay\<close>.

  What \<^verbatim>\<open>main\<close> does is recorded as a list of events: the association it logs
  (\<open>GotFile line title\<close>) and each call of the post-processing function
  (\<open>Invoke title pdf_file\<close>). The post-processing function works on a state of its own,
  of type \<open>'w\<close>, and may raise.
\<close>

datatype mevent = GotFile string pyval | Invoke pyval pyval

type_synonym 'w callback = "pyval \<Rightarrow> pyval \<Rightarrow> 'w \<Rightarrow> (error + unit) \<times> 'w"

definition as_completed :: "(nat \<Rightarrow> nat) \<Rightarrow> 'a list \<Rightarrow> 'a list" where
  "as_completed delay tasks = map (\<lambda>k. tasks ! k) (sort_key delay [0..<length tasks])"

fun main_loop :: "string list \<Rightarrow> 'w callback option \<Rightarrow> (nat \<times> (error + pyval \<times> pyval)) list \<Rightarrow>
    mevent list \<Rightarrow> 'w \<Rightarrow> (error + unit) \<times> mevent list \<times> 'w" where
  "main_loop article_list postproc_fn [] tr w = (Inr (), tr, w)"
| "main_loop article_list postproc_fn ((aidx, task_result) # rest) tr w =
     (case task_result of
        Inl e \<Rightarrow> (Inl e, tr, w)
      | Inr (pdf_file, title) \<Rightarrow>
          if \<not> aidx < length article_list then (Inl IndexError, tr, w)
          else
            (let tr1 = tr @ [GotFile (article_list ! aidx) title] in
             case postproc_fn of
               None \<Rightarrow> main_loop article_list postproc_fn rest tr1 w
             | Some f \<Rightarrow>
                 (case f title pdf_file w of
                    (Inl e, w1) \<Rightarrow> (Inl e, tr1 @ [Invoke title pdf_file], w1)
                  | (Inr _, w1) \<Rightarrow>
                      main_loop article_list postproc_fn rest (tr1 @ [Invoke title pdf_file]) w1)))"

definition main :: "session \<Rightarrow> (nat \<Rightarrow> nat) \<Rightarrow> string list \<Rightarrow> 'w callback option \<Rightarrow> 'w \<Rightarrow>
    (error + unit) \<times> mevent list \<times> 'w" where
  "main session delay article_list postproc_fn w =
     main_loop article_list postproc_fn
       (enumerate 0 (as_completed delay
          (map (\<lambda>a. fst (process_one_article session a)) article_list)))
       [] w"

text \<open>The calls of the post-processing function in a list of events, as (title, content).\<close>

fun invocations :: "mevent list \<Rightarrow> (pyval \<times> pyval) list" where
  "invocations [] = []"
| "invocations (Invoke title pdf_file # es) = (title, pdf_file) # invocations es"
| "invocations (GotFile line title # es) = invocations es"

section \<open>The script\<close>

text \<open>
  The block under \<^verbatim>\<open>if __name__ == "__main__"\<close>. The world it runs in: the directories and
  files that exist, the file-system operations performed so far, the jobs sent to the
  printer, the module global \<^verbatim>\<open>temp_dir\<close> and the lines logged. The environment it cannot
  control: the network, the completion order of the tasks, the print service, and which
  paths can be created or written.
\<close>

datatype fs_op = Mkdir string | Mkdtemp string | WriteFile string | Rmtree string

record world =
  dirs :: "string list"
  files :: "(string \<times> string) list"
  fs_ops :: "fs_op list"
  jobs :: "(string \<times> string \<times> pyval) list"
  temp_dir :: "string option"
  log :: "(string \<times> pyval list) list"

record cups_env =
  pycups_installed :: bool
  connection_ok :: bool
  printers :: "(string \<times> (string \<times> string) list) list"
  default_printer :: "string option"
  printFile :: "string \<Rightarrow> error + int"

record env =
  net :: session
  completion_delay :: "nat \<Rightarrow> nat"
  cups :: cups_env
  writable :: "string \<Rightarrow> bool"

record args =
  arg_save :: "string option"
  arg_print :: bool
  arg_input :: "string option"

definition log_info :: "string \<Rightarrow> pyval list \<Rightarrow> world \<Rightarrow> world" where
  "log_info template fmt_args w = w\<lparr>log := log w @ [(template, fmt_args)]\<rparr>"

definition isfile :: "world \<Rightarrow> string \<Rightarrow> bool" where
  "isfile w p = (map_of (files w) p \<noteq> None)"

definition path_exists :: "world \<Rightarrow> string \<Rightarrow> bool" where
  "path_exists w p = (p \<in> set (dirs w) \<or> isfile w p)"

text \<open>
  The builtin \<^verbatim>\<open>open(file, 'r')\<close>: the path must be a string or bytes; any other value
  raises \<^verbatim>\<open>TypeError\<close>.
\<close>

definition py_open :: "world \<Rightarrow> pyval \<Rightarrow> error + string" where
  "py_open w f =
     (case f of
        StrList _ \<Rightarrow> Inl TypeError
      | Str p \<Rightarrow> (case map_of (files w) p of
                    None \<Rightarrow> Inl (OSError ''FileNotFoundError'') | Some c \<Rightarrow> Inr c)
      | Bytes p \<Rightarrow> (case map_of (files w) p of
                    None \<Rightarrow> Inl (OSError ''FileNotFoundError'') | Some c \<Rightarrow> Inr c)
      | PyInt _ \<Rightarrow> Inl (OSError ''Bad file descriptor''))"

definition generate_article_list :: "world \<Rightarrow> string option \<Rightarrow> error + string list" where
  "generate_article_list w input_str =
     (if input_str = None \<or> input_str = Some [] then Inl (ValueError ''must supply input'' [])
      else
        (let ret = map strip (split_str CHR '','' (the input_str)) in
         if length ret = 0 then Inl (ValueError ''--input invalid; got {}'' [StrList ret])
         else if length ret = 1 \<and> isfile w (ret ! 0) then
           (case py_open w (StrList ret) of
              Inl e \<Rightarrow> Inl e
            | Inr f \<Rightarrow> Inr (map rstrip_nl (file_lines f)))
         else Inr ret))"

text \<open>
  \<^verbatim>\<open>setup_printing\<close> returns the closure \<^verbatim>\<open>print_one_file\<close>, which is determined by the
  name of the default printer, or \<^verbatim>\<open>None\<close>. Every exception raised inside is caught.
\<close>

definition setup_printing :: "cups_env \<Rightarrow> bool \<Rightarrow> world \<Rightarrow> string option \<times> world" where
  "setup_printing c should_print w =
     (if \<not> should_print then (None, log_info ''not printing'' [] w)
      else if \<not> pycups_installed c then
        (None, log_info ''could not import pycups; make sure you have it installed with `pip install pycups'' [] w)
      else if \<not> connection_ok c then (None, log_info ''not printing'' [] w)
      else if printers c = [] then (None, log_info ''not printing'' [] w)
      else
        (case default_printer c of
           None \<Rightarrow> (None, log_info ''not printing'' [] w)
         | Some name \<Rightarrow>
             (case map_of (printers c) name of
                None \<Rightarrow> (None, log_info ''not printing'' [] w)
              | Some attrs \<Rightarrow>
                  (let loc = (case map_of attrs ''printer-location'' of
                                None \<Rightarrow> ''unknown'' | Some l \<Rightarrow> l)
                   in (Some name,
                       log_info ''using printer {} at location {}'' [Str name, Str loc] w)))))"

definition print_one_file :: "cups_env \<Rightarrow> string \<Rightarrow> string \<Rightarrow> pyval \<Rightarrow> world \<Rightarrow> (error + unit) \<times> world" where
  "print_one_file c name filepath job_title w =
     (case printFile c filepath of
        Inl err \<Rightarrow> (Inl err, w)
      | Inr job_id \<Rightarrow>
          (Inr (),
           log_info ''submitting job {} ({}) to printer'' [PyInt job_id, job_title]
             (w\<lparr>jobs := jobs w @ [(name, filepath, job_title)]\<rparr>)))"

text \<open>
  \<^verbatim>\<open>tempfile.mkdtemp()\<close> creates a directory under a name that no existing path has.
\<close>

definition mkdtemp_name :: "world \<Rightarrow> string" where
  "mkdtemp_name w =
     ''/tmp/tmp'' @ replicate (Suc (foldr max (map length (dirs w @ map fst (files w))) 0)) CHR ''x''"

text \<open>
  \<^verbatim>\<open>setup_saving\<close> returns the closure \<^verbatim>\<open>save_file_fn\<close>, which is determined by the
  directory it saves to, or \<^verbatim>\<open>None\<close>.
\<close>

definition setup_saving :: "env \<Rightarrow> string option \<Rightarrow> string option \<Rightarrow> world \<Rightarrow>
    (error + string option) \<times> world" where
  "setup_saving e save_dir print_fn w =
     (if (save_dir = None \<or> save_dir = Some []) \<and> print_fn = None
      then (Inr None, log_info ''not saving'' [] w)
      else if \<not> (save_dir = None \<or> save_dir = Some []) then
        (let d = the save_dir in
         if \<not> path_exists w d then
           (if writable e d
            then (Inr (Some d),
                  log_info ''saving to {}'' [Str d]
                    (w\<lparr>dirs := d # dirs w, fs_ops := fs_ops w @ [Mkdir d]\<rparr>))
            else (Inl (OSError ''mkdir''), w))
         else (Inr (Some d), log_info ''saving to {}'' [Str d] w))
      else
        (let d = mkdtemp_name w in
         (Inr (Some d),
          log_info ''saving to {}'' [Str d]
            (w\<lparr>dirs := d # dirs w, fs_ops := fs_ops w @ [Mkdtemp d], temp_dir := Some d\<rparr>))))"

definition save_file_fn :: "env \<Rightarrow> string \<Rightarrow> string \<Rightarrow> pyval \<Rightarrow> world \<Rightarrow> (error + string) \<times> world" where
  "save_file_fn e save_dir filename bin_content w =
     (let final_path = path_join save_dir filename;
          w1 = log_info ''saving {}'' [Str final_path] w
      in if \<not> writable e final_path then (Inl (OSError ''open''), w1)
         else (case bin_content of
                 Bytes b \<Rightarrow>
                   (Inr final_path,
                    w1\<lparr>files := (final_path, b) # files w1,
                       fs_ops := fs_ops w1 @ [WriteFile final_path]\<rparr>)
               | _ \<Rightarrow>
                   (Inl TypeError,
                    w1\<lparr>files := (final_path, []) # files w1,
                       fs_ops := fs_ops w1 @ [WriteFile final_path]\<rparr>)))"

definition postprocess_fn :: "env \<Rightarrow> string option \<Rightarrow> string option \<Rightarrow> world callback" where
  "postprocess_fn e save_fn print_fn title pdf_content w =
     (case save_fn of
        None \<Rightarrow> (Inr (), w)
      | Some save_dir \<Rightarrow>
          (case title of
             Str t \<Rightarrow>
               (case save_file_fn e save_dir (t @ ''.pdf'') pdf_content w of
                  (Inl err, w1) \<Rightarrow> (Inl err, w1)
                | (Inr filepath, w1) \<Rightarrow>
                    (case print_fn of
                       None \<Rightarrow> (Inr (), w1)
                     | Some name \<Rightarrow> print_one_file (cups e) name filepath title w1))
           | _ \<Rightarrow> (Inl TypeError, w)))"

fun join_str :: "string \<Rightarrow> string list \<Rightarrow> string" where
  "join_str sep [] = []"
| "join_str sep [x] = x"
| "join_str sep (x # y # ys) = x @ sep @ join_str sep (y # ys)"

text \<open>\<^verbatim>\<open>shutil.rmtree\<close> removes the directory and everything below it.\<close>

definition below :: "string \<Rightarrow> string \<Rightarrow> bool" where
  "below d p = (p = d \<or> take (Suc (length d)) p = d @ ''/'')"

definition rmtree :: "string \<Rightarrow> world \<Rightarrow> error + world" where
  "rmtree d w =
     (if d \<in> set (dirs w)
      then Inr (w\<lparr>dirs := filter (\<lambda>p. \<not> below d p) (dirs w),
                  files := filter (\<lambda>(p, c). \<not> below d p) (files w),
                  fs_ops := fs_ops w @ [Rmtree d]\<rparr>)
      else Inl (OSError ''FileNotFoundError''))"

text \<open>
  The body of the \<^verbatim>\<open>try\<close> statement, then the script: it sets \<^verbatim>\<open>temp_dir = None\<close>, runs the
  \<^verbatim>\<open>try\<close> body, and runs the \<^verbatim>\<open>finally\<close> clause whatever the outcome of the body. An
  exception of the body is raised again after the clause.
\<close>

definition try_block :: "env \<Rightarrow> args \<Rightarrow> world \<Rightarrow> (error + unit) \<times> mevent list \<times> world" where
  "try_block e a w =
     (case setup_printing (cups e) (arg_print a) w of
        (print_fn, w1) \<Rightarrow>
          (case setup_saving e (arg_save a) print_fn w1 of
             (Inl err, w2) \<Rightarrow> (Inl err, [], w2)
           | (Inr save_fn, w2) \<Rightarrow>
               (case generate_article_list w2 (arg_input a) of
                  Inl err \<Rightarrow> (Inl err, [], w2)
                | Inr articles \<Rightarrow>
                    main (net e) (completion_delay e) articles
                      (Some (postprocess_fn e save_fn print_fn))
                      (log_info ''given {} as input'' [Str (join_str '','' articles)] w2))))"

definition script :: "env \<Rightarrow> args \<Rightarrow> world \<Rightarrow> (error + unit) \<times> mevent list \<times> world" where
  "script e a w =
     (case try_block e a (w\<lparr>temp_dir := None\<rparr>) of
        (r, tr, w1) \<Rightarrow>
          (if temp_dir w1 = None \<or> temp_dir w1 = Some [] then (r, tr, w1)
           else
             (let w2 = log_info ''deleting temporary directory'' [] w1 in
              case rmtree (the (temp_dir w2)) w2 of
                Inl err \<Rightarrow> (Inl err, tr, w2)
              | Inr w3 \<Rightarrow> (r, tr, w3))))"


section \<open>Example inputs\<close>

text \<open>
  The mock sessions of the examples: one article served consistently, one summary whose
  embedded identifier differs from the one requested, a summary without a title element,
  and two articles.
\<close>

definition mock_session :: session where
  "mock_session url =
     (if url = ''https://arxiv.org/abs/1706.03762''
        then Inr \<lparr>status = 200, body = ''<title>[1706.03762] Attention Is All You Need</title>''\<rparr>
      else if url = ''https://arxiv.org/pdf/1706.03762''
        then Inr \<lparr>status = 200, body = ''%PDF-FAKE''\<rparr>
      else Inr \<lparr>status = 404, body = []\<rparr>)"

definition mismatch_session :: session where
  "mismatch_session url =
     (if url = ''https://arxiv.org/abs/1706.03762''
        then Inr \<lparr>status = 200, body = ''<title>[1706.99999] Something Else</title>''\<rparr>
      else if url = ''https://arxiv.org/pdf/1706.03762''
        then Inr \<lparr>status = 200, body = ''%PDF-FAKE''\<rparr>
      else Inr \<lparr>status = 404, body = []\<rparr>)"

definition untitled_session :: session where
  "untitled_session url = Inr \<lparr>status = 200, body = ''<html></html>''\<rparr>"

text \<open>
  A summary with two title elements on one line, and one whose title text has whitespace
  on both sides.
\<close>

definition two_titles_session :: session where
  "two_titles_session url =
     Inr \<lparr>status = 200, body = ''<title>[1.2] A</title><title>[3.4] B</title>''\<rparr>"

definition padded_session :: session where
  "padded_session url =
     Inr \<lparr>status = 200,
          body = ''<html><title>[1706.03762]  Attention Is All You Need '' @ [CHR 0x09] @ '' </title>''\<rparr>"

definition two_session :: session where
  "two_session url =
     (if url = ''https://arxiv.org/abs/1706.03762''
        then Inr \<lparr>status = 200, body = ''<title>[1706.03762] Attention Is All You Need</title>''\<rparr>
      else if url = ''https://arxiv.org/pdf/1706.03762''
        then Inr \<lparr>status = 200, body = ''%PDF-A''\<rparr>
      else if url = ''https://arxiv.org/abs/1512.03385''
        then Inr \<lparr>status = 200, body = ''<title>[1512.03385] Deep Residual Learning</title>''\<rparr>
      else if url = ''https://arxiv.org/pdf/1512.03385''
        then Inr \<lparr>status = 200, body = ''%PDF-B''\<rparr>
      else Inr \<lparr>status = 404, body = []\<rparr>)"

text \<open>A completion order in which the second task finishes before the first.\<close>

definition second_first :: "nat \<Rightarrow> nat" where
  "second_first k = (if k = 0 then 1 else 0)"

text \<open>A world in which the file \<^verbatim>\<open>ids.txt\<close> exists and holds two identifiers.\<close>

definition ids_world :: world where
  "ids_world =
     \<lparr>dirs = [''/tmp''], files = [(''ids.txt'', ''1706.03762'' @ [CHR 0x0A] @ ''1512.03385'' @ [CHR 0x0A])],
      fs_ops = [], jobs = [], temp_dir = None, log = []\<rparr>"

text \<open>
  Printing requested and no directory to save to; an environment without the print
  library, one with a printer, and one with a printer in which every request fails.
\<close>

definition print_only_args :: args where
  "print_only_args = \<lparr>arg_save = None, arg_print = True, arg_input = Some ''1706.03762''\<rparr>"

definition no_pycups_env :: env where
  "no_pycups_env =
     \<lparr>net = mock_session, completion_delay = (\<lambda>k. 0),
      cups = \<lparr>pycups_installed = False, connection_ok = False, printers = [],
              default_printer = None, printFile = (\<lambda>p. Inl (OSError ''cups''))\<rparr>,
      writable = (\<lambda>p. True)\<rparr>"

definition printer_env :: env where
  "printer_env =
     \<lparr>net = mock_session, completion_delay = (\<lambda>k. 0),
      cups = \<lparr>pycups_installed = True, connection_ok = True,
              printers = [(''office'', [(''printer-location'', ''floor 2'')])],
              default_printer = Some ''office'', printFile = (\<lambda>p. Inr 1)\<rparr>,
      writable = (\<lambda>p. True)\<rparr>"

definition offline_env :: env where
  "offline_env = printer_env\<lparr>net := (\<lambda>url. Inl ClientConnectionError)\<rparr>"



section \<open>Shapes of identifiers and title elements\<close>

text \<open>
  The texts that the two patterns describe, stated without the matcher. \<open>id_shape x\<close>:
  \<open>x\<close> is four digits, a dot, and five or six digits (\<^verbatim>\<open>\d{4}\.\d{5,6}\<close>).
\<close>

definition id_shape :: "string \<Rightarrow> bool" where
  "id_shape x \<longleftrightarrow>
     (length x = 10 \<or> length x = 11) \<and> list_all (in_cls Digit) (take 4 x) \<and>
     take 1 (drop 4 x) = ''.'' \<and> list_all (in_cls Digit) (drop 5 x)"

text \<open>
  \<open>id_form i\<close>: \<open>i\<close> is digits, a dot, digits, either run possibly empty (\<^verbatim>\<open>\d*\.\d*\<close>).
  \<open>title_elem i t\<close> is the title element \<^verbatim>\<open><title>[i]t</title>\<close>, and \<open>one_line t\<close> says
  that \<open>t\<close> has no newline, which \<^verbatim>\<open>.\<close> does not match.
\<close>

definition id_form :: "string \<Rightarrow> bool" where
  "id_form i \<longleftrightarrow>
     take 1 (dropWhile (in_cls Digit) i) = ''.'' \<and>
     list_all (in_cls Digit) (drop 1 (dropWhile (in_cls Digit) i))"

definition one_line :: "string \<Rightarrow> bool" where
  "one_line t = list_all (in_cls AnyChar) t"

definition title_elem :: "string \<Rightarrow> string \<Rightarrow> string" where
  "title_elem i t = ''<title>['' @ i @ '']'' @ t @ ''</title>''"

text \<open>
  What the batch leaves untouched in the world: the directories, the global \<^verbatim>\<open>temp_dir\<close>
  and the file-system operations already performed.
\<close>

definition kept :: "string list \<Rightarrow> string option \<Rightarrow> fs_op list \<Rightarrow> world \<Rightarrow> bool" where
  "kept D T ops w \<longleftrightarrow> dirs w = D \<and> temp_dir w = T \<and> (\<exists>more. fs_ops w = ops @ more)"

text \<open>
  The two halves of the title pattern, and the direct reading of its first half: the text
  must start with \<^verbatim>\<open><title>[\<close>, a run of digits, a dot, a run of digits and \<^verbatim>\<open>]\<close>.
\<close>

definition idbody :: re where
  "idbody = Seq (Rep Digit 0 None) (Seq (Lit ''.'') (Rep Digit 0 None))"

definition titlebody :: re where
  "titlebody = Seq (Group (Rep AnyChar 0 None)) (Lit ''</title>'')"

definition title_prefix :: "string \<Rightarrow> (string \<times> string) option" where
  "title_prefix s =
     (let s1 = drop (length ''<title>['') s;
          a = takeWhile (in_cls Digit) s1;
          s2 = drop 1 (dropWhile (in_cls Digit) s1);
          b = takeWhile (in_cls Digit) s2;
          s3 = dropWhile (in_cls Digit) s2
      in if take (length ''<title>['') s = ''<title>['' \<and>
            take 1 (dropWhile (in_cls Digit) s1) = ''.'' \<and> take (length '']'') s3 = '']''
         then Some (a @ ''.'' @ b, drop (length '']'') s3) else None)"

section \<open>Properties of the matcher\<close>

lemma rmatch_split: "(u, g, t) \<in> set (rmatch r s) \<Longrightarrow> s = u @ t"
proof (induction r arbitrary: s u g t)
  case (Lit w)
  then show ?case by (auto split: if_splits) (metis append_take_drop_id)
next
  case (Rep c lo hi)
  then show ?case by (auto simp: rep_matches_def Let_def)
next
  case (Seq r1 r2)
  then show ?case by fastforce
next
  case (Group r)
  then show ?case by auto
qed

lemma le_length_takeWhile:
  "k \<le> length (takeWhile P s) \<longleftrightarrow> k \<le> length s \<and> list_all P (take k s)"
proof (induction s arbitrary: k)
  case Nil
  then show ?case by simp
next
  case (Cons a s)
  then show ?case by (cases k) auto
qed

lemma rep_exact:
  "rep_matches c k (Some k) s =
     (if k \<le> length s \<and> list_all (in_cls c) (take k s) then [(take k s, [], drop k s)] else [])"
  by (auto simp: rep_matches_def Let_def le_length_takeWhile min_def not_le)

lemma rep_5_6:
  "rep_matches c 5 (Some 6) s =
     (if 6 \<le> length s \<and> list_all (in_cls c) (take 6 s)
        then [(take 6 s, [], drop 6 s), (take 5 s, [], drop 5 s)]
      else if 5 \<le> length s \<and> list_all (in_cls c) (take 5 s)
        then [(take 5 s, [], drop 5 s)]
      else [])"
proof -
  let ?n = "length (takeWhile (in_cls c) s)"
  consider "6 \<le> ?n" | "?n = 5" | "?n < 5" by linarith
  then show ?thesis
  proof cases
    case 1
    then have "min 6 ?n = 6" by simp
    moreover have "5 \<le> ?n" using 1 by simp
    ultimately show ?thesis using 1
      by (simp add: rep_matches_def Let_def le_length_takeWhile [symmetric] upt_rec)
  next
    case 2
    then have "min 6 ?n = 5" "\<not> 6 \<le> ?n" "5 \<le> ?n" by simp_all
    then show ?thesis
      by (simp add: rep_matches_def Let_def le_length_takeWhile [symmetric] upt_rec)
  next
    case 3
    then have "min 6 ?n = ?n" "\<not> 6 \<le> ?n" "\<not> 5 \<le> ?n" by simp_all
    then show ?thesis using 3
      by (simp add: rep_matches_def Let_def le_length_takeWhile [symmetric])
  qed
qed

lemma list_all_take_le:
  "list_all P (take n xs) \<Longrightarrow> k \<le> n \<Longrightarrow> list_all P (take k xs)"
  by (metis list_all_append min.absorb1 take_take append_take_drop_id)

lemma list_all_take_6_5: "list_all P (take 6 xs) \<Longrightarrow> list_all P (take 5 xs)"
  by (rule list_all_take_le [of P 6 xs 5]) simp_all

lemma rmatch_id_eq:
  "rmatch FIND_ID_REGEX s =
     (if 4 \<le> length s \<and> list_all (in_cls Digit) (take 4 s) \<and> take 1 (drop 4 s) = ''.''
      then map (\<lambda>(u, g, t). (take 4 s @ ''.'' @ u, g, t)) (rep_matches Digit 5 (Some 6) (drop 5 s))
      else [])"
  by (auto simp: FIND_ID_REGEX_def rep_exact)

lemma rmatch_id_sound:
  assumes "(u, g, t) \<in> set (rmatch FIND_ID_REGEX s)"
  shows "id_shape u \<and> g = []"
  using assms
  by (auto simp: rmatch_id_eq rep_5_6 id_shape_def split: if_splits
      dest: list_all_take_6_5)

lemma rmatch_id_complete:
  assumes "id_shape x"
  shows "rmatch FIND_ID_REGEX (x @ y) \<noteq> []"
  using assms
  by (auto simp: rmatch_id_eq rep_5_6 id_shape_def)

lemma rmatch_id_longest:
  assumes "rmatch FIND_ID_REGEX (x @ y) = (u, g, t) # rest" and "id_shape x"
  shows "length x \<le> length u"
  using assms
  by (auto simp: rmatch_id_eq rep_5_6 id_shape_def split: if_splits)

lemma re_search_None_iff:
  "re_search r s = None \<longleftrightarrow> (\<forall>i\<le>length s. rmatch r (drop i s) = [])"
proof (induction s)
  case Nil
  then show ?case by (auto split: list.splits)
next
  case (Cons x xs)
  have "(\<forall>i\<le>length (x # xs). rmatch r (drop i (x # xs)) = []) \<longleftrightarrow>
        rmatch r (x # xs) = [] \<and> (\<forall>i\<le>length xs. rmatch r (drop i xs) = [])"
    (is "?L \<longleftrightarrow> ?R")
  proof
    assume l: ?L
    have "rmatch r (drop 0 (x # xs)) = []" using l by blast
    moreover have "\<forall>i\<le>length xs. rmatch r (drop i xs) = []"
    proof (intro allI impI)
      fix i assume "i \<le> length xs"
      then have "rmatch r (drop (Suc i) (x # xs)) = []" using l by (metis Suc_le_mono length_Cons)
      then show "rmatch r (drop i xs) = []" by simp
    qed
    ultimately show ?R by simp
  next
    assume r: ?R
    show ?L
    proof (intro allI impI)
      fix i assume "i \<le> length (x # xs)"
      then show "rmatch r (drop i (x # xs)) = []" using r by (cases i) auto
    qed
  qed
  with Cons show ?case by (auto split: list.splits)
qed

lemma re_search_Some:
  "re_search r s = Some m \<Longrightarrow>
     \<exists>i u g t rest. i \<le> length s \<and> rmatch r (drop i s) = (u, g, t) # rest \<and> m = u # g \<and>
       (\<forall>j<i. rmatch r (drop j s) = [])"
proof (induction s)
  case Nil
  then show ?case by (auto split: list.splits)
next
  case (Cons x xs)
  show ?case
  proof (cases "rmatch r (x # xs)")
    case Nil
    with Cons.prems have "re_search r xs = Some m" by simp
    from Cons.IH [OF this] obtain i u g t rest where
      i: "i \<le> length xs" "rmatch r (drop i xs) = (u, g, t) # rest" "m = u # g"
         "\<forall>j<i. rmatch r (drop j xs) = []" by blast
    have "\<forall>j<Suc i. rmatch r (drop j (x # xs)) = []"
    proof (intro allI impI)
      fix j assume "j < Suc i"
      then show "rmatch r (drop j (x # xs)) = []" using i(4) Nil by (cases j) auto
    qed
    with i(1-3) show ?thesis
      by (intro exI [of _ "Suc i"] exI [of _ u] exI [of _ g] exI [of _ t] exI [of _ rest]) simp
  next
    case (Cons a list)
    obtain u g t where a: "a = (u, g, t)" by (cases a)
    with Cons Cons.prems have "m = u # g" by simp
    with Cons a show ?thesis
      by (intro exI [of _ 0] exI [of _ u] exI [of _ g] exI [of _ t] exI [of _ list]) simp
  qed
qed

lemma concat_last_only:
  assumes "\<And>j. j < n \<Longrightarrow> f j = []"
  shows "concat (map f (rev [0..<Suc n])) = f n"
proof -
  have "concat (map f (rev [0..<n])) = []" using assms by (auto simp: concat_eq_Nil_conv)
  then show ?thesis by simp
qed

lemma rep_star:
  "rep_matches c 0 None s =
     map (\<lambda>j. (take j s, [], drop j s)) (rev [0..<Suc (length (takeWhile (in_cls c) s))])"
  by (simp add: rep_matches_def Let_def)

lemma seq_lit:
  "rmatch (Seq (Lit w) r) s =
     (if take (length w) s = w
      then map (\<lambda>(u, g, t). (w @ u, g, t)) (rmatch r (drop (length w) s)) else [])"
  by auto

lemma seq_star:
  "rmatch (Seq (Rep c 0 None) k) s =
     concat (map (\<lambda>j. map (\<lambda>(u, g, t). (take j s @ u, g, t)) (rmatch k (drop j s)))
                 (rev [0..<Suc (length (takeWhile (in_cls c) s))]))"
  by (simp add: rep_star o_def)

lemma in_run:
  assumes "j < length (takeWhile P s)"
  shows "\<exists>t. drop j s = (s ! j) # t \<and> P (s ! j)"
proof -
  have "j < length s" using assms by (meson length_takeWhile_le less_le_trans)
  then have "drop j s = (s ! j) # drop (Suc j) s" by (simp add: Cons_nth_drop_Suc)
  moreover have "P (s ! j)" using assms by (metis nth_mem set_takeWhileD takeWhile_nth)
  ultimately show ?thesis by blast
qed

lemma lit_fails_in_run:
  assumes "j < length (takeWhile (in_cls c) s)" and "\<not> in_cls c x"
  shows "rmatch (Seq (Lit (x # w)) r) (drop j s) = []"
proof -
  from in_run [OF assms(1)] obtain t where "drop j s = (s ! j) # t" "in_cls c (s ! j)" by blast
  with assms(2) show ?thesis by (auto simp: seq_lit)
qed

lemma seq_star_skip:
  assumes "\<And>j. j < length (takeWhile (in_cls c) s) \<Longrightarrow> rmatch k (drop j s) = []"
  shows "rmatch (Seq (Rep c 0 None) k) s =
           map (\<lambda>(u, g, t). (takeWhile (in_cls c) s @ u, g, t)) (rmatch k (dropWhile (in_cls c) s))"
proof -
  let ?n = "length (takeWhile (in_cls c) s)"
  let ?f = "\<lambda>j. map (\<lambda>(u, g, t). (take j s @ u, g, t)) (rmatch k (drop j s))"
  have "\<And>j. j < ?n \<Longrightarrow> ?f j = []" using assms by simp
  then have "concat (map ?f (rev [0..<Suc ?n])) = ?f ?n" by (rule concat_last_only)
  moreover have "rmatch (Seq (Rep c 0 None) k) s = concat (map ?f (rev [0..<Suc ?n]))"
    by (rule seq_star)
  moreover have "?f ?n = map (\<lambda>(u, g, t). (takeWhile (in_cls c) s @ u, g, t))
                           (rmatch k (dropWhile (in_cls c) s))"
    by (simp add: takeWhile_eq_take [symmetric] dropWhile_eq_drop [symmetric])
  ultimately show ?thesis by simp
qed

lemma rmatch_idbody:
  "rmatch idbody s =
     (if take 1 (dropWhile (in_cls Digit) s) = ''.''
      then map (\<lambda>j. (takeWhile (in_cls Digit) s @ ''.'' @ take j (drop 1 (dropWhile (in_cls Digit) s)),
                      [], drop j (drop 1 (dropWhile (in_cls Digit) s))))
               (rev [0..<Suc (length (takeWhile (in_cls Digit) (drop 1 (dropWhile (in_cls Digit) s))))])
      else [])"
proof -
  have "rmatch idbody s =
          map (\<lambda>(u, g, t). (takeWhile (in_cls Digit) s @ u, g, t))
              (rmatch (Seq (Lit ''.'') (Rep Digit 0 None)) (dropWhile (in_cls Digit) s))"
    unfolding idbody_def by (rule seq_star_skip) (rule lit_fails_in_run, assumption, simp)
  then show ?thesis by (simp add: seq_lit rep_star o_def)
qed

lemma seq_group_idbody:
  assumes "\<And>t j. j < length (takeWhile (in_cls Digit) t) \<Longrightarrow> rmatch k (drop j t) = []"
  shows "rmatch (Seq (Group idbody) k) s =
     (if take 1 (dropWhile (in_cls Digit) s) = ''.''
      then (let a = takeWhile (in_cls Digit) s;
                s2 = drop 1 (dropWhile (in_cls Digit) s);
                b = takeWhile (in_cls Digit) s2
            in map (\<lambda>(u, g, t). (a @ ''.'' @ b @ u, (a @ ''.'' @ b) # g, t))
                   (rmatch k (dropWhile (in_cls Digit) s2)))
      else [])"
proof (cases "take 1 (dropWhile (in_cls Digit) s) = ''.''")
  case False
  then show ?thesis by (simp add: rmatch_idbody)
next
  case True
  let ?a = "takeWhile (in_cls Digit) s"
  let ?s2 = "drop 1 (dropWhile (in_cls Digit) s)"
  let ?n = "length (takeWhile (in_cls Digit) ?s2)"
  let ?f = "\<lambda>j. map (\<lambda>(u, g, t). (?a @ ''.'' @ take j ?s2 @ u, (?a @ ''.'' @ take j ?s2) # g, t))
                     (rmatch k (drop j ?s2))"
  have "rmatch (Seq (Group idbody) k) s = concat (map ?f (rev [0..<Suc ?n]))"
    using True by (simp add: rmatch_idbody o_def)
  also have "\<dots> = ?f ?n"
  proof (rule concat_last_only)
    fix j assume "j < ?n"
    then have "rmatch k (drop j ?s2) = []" by (rule assms)
    then show "?f j = []" by simp
  qed
  also have "\<dots> = map (\<lambda>(u, g, t). (?a @ ''.'' @ takeWhile (in_cls Digit) ?s2 @ u,
                                    (?a @ ''.'' @ takeWhile (in_cls Digit) ?s2) # g, t))
                         (rmatch k (dropWhile (in_cls Digit) ?s2))"
  proof -
    have t: "take ?n ?s2 = takeWhile (in_cls Digit) ?s2" by (rule takeWhile_eq_take [symmetric])
    have d: "drop ?n ?s2 = dropWhile (in_cls Digit) ?s2" by (rule dropWhile_eq_drop [symmetric])
    show ?thesis by (simp only: t d)
  qed
  finally show ?thesis using True by (simp add: Let_def)
qed

lemma title_regex_eq:
  "FIND_TITLE_REGEX = Seq (Lit ''<title>['') (Seq (Group idbody) (Seq (Lit '']'') titlebody))"
  by (simp add: FIND_TITLE_REGEX_def idbody_def titlebody_def)

lemma rmatch_title:
  "rmatch FIND_TITLE_REGEX s =
     (case title_prefix s of
        None \<Rightarrow> []
      | Some (i, s4) \<Rightarrow>
          map (\<lambda>(u, g, t). (''<title>['' @ i @ '']'' @ u, i # g, t)) (rmatch titlebody s4))"
proof -
  have k: "\<And>t j. j < length (takeWhile (in_cls Digit) t) \<Longrightarrow>
      rmatch (Seq (Lit '']'') titlebody) (drop j t) = []"
    by (rule lit_fails_in_run, assumption, simp)
  note g = seq_group_idbody [of "Seq (Lit '']'') titlebody", OF k]
  show ?thesis
    by (simp only: title_regex_eq seq_lit g)
       (simp add: title_prefix_def Let_def o_def case_prod_unfold del: rmatch.simps)
qed

lemma take1_eq: "take 1 xs = [x] \<Longrightarrow> xs = x # drop 1 xs"
  by (cases xs) auto

lemma takeWhile_run: "list_all P a \<Longrightarrow> \<not> P x \<Longrightarrow> takeWhile P (a @ x # r) = a"
  by (induction a) auto

lemma dropWhile_run: "list_all P a \<Longrightarrow> \<not> P x \<Longrightarrow> dropWhile P (a @ x # r) = x # r"
  by (induction a) auto

lemma list_all_takeWhile: "list_all P (takeWhile P xs)"
  by (induction xs) auto

lemma id_form_iff:
  "id_form i \<longleftrightarrow> (\<exists>a b. i = a @ ''.'' @ b \<and> list_all (in_cls Digit) a \<and> list_all (in_cls Digit) b)"
proof
  assume f: "id_form i"
  let ?a = "takeWhile (in_cls Digit) i"
  let ?r = "dropWhile (in_cls Digit) i"
  have "?r = CHR ''.'' # drop 1 ?r" using f by (intro take1_eq) (simp add: id_form_def)
  then have "i = ?a @ ''.'' @ drop 1 ?r" by (metis append_Cons append_Nil takeWhile_dropWhile_id)
  moreover have "list_all (in_cls Digit) ?a" by (rule list_all_takeWhile)
  moreover have "list_all (in_cls Digit) (drop 1 ?r)" using f by (simp add: id_form_def)
  ultimately show "\<exists>a b. i = a @ ''.'' @ b \<and> list_all (in_cls Digit) a \<and> list_all (in_cls Digit) b"
    by blast
next
  assume "\<exists>a b. i = a @ ''.'' @ b \<and> list_all (in_cls Digit) a \<and> list_all (in_cls Digit) b"
  then obtain a b where "i = a @ CHR ''.'' # b" "list_all (in_cls Digit) a" "list_all (in_cls Digit) b"
    by auto
  then show "id_form i" by (simp add: id_form_def dropWhile_run)
qed

lemma title_prefix_sound:
  assumes "title_prefix s = Some (i, s4)"
  shows "id_form i \<and> s = ''<title>['' @ i @ '']'' @ s4"
proof -
  let ?s1 = "drop (length ''<title>['') s"
  let ?a = "takeWhile (in_cls Digit) ?s1"
  let ?r = "dropWhile (in_cls Digit) ?s1"
  let ?s2 = "drop 1 ?r"
  let ?b = "takeWhile (in_cls Digit) ?s2"
  let ?s3 = "dropWhile (in_cls Digit) ?s2"
  from assms have c: "take (length ''<title>['') s = ''<title>[''" "take 1 ?r = ''.''"
      "take (length '']'') ?s3 = '']''" and i: "i = ?a @ ''.'' @ ?b" and s4: "s4 = drop (length '']'') ?s3"
    by (auto simp: title_prefix_def Let_def split: if_splits)
  have "s = ''<title>['' @ ?s1" using c(1) by (metis append_take_drop_id)
  moreover have "?s1 = ?a @ ?r" by simp
  moreover have "?r = ''.'' @ ?s2" using take1_eq [of ?r "CHR ''.''"] c(2) by simp
  moreover have "?s2 = ?b @ ?s3" by simp
  moreover have "?s3 = '']'' @ s4" using take1_eq [of ?s3 "CHR '']''"] c(3) s4 by simp
  ultimately have "s = ''<title>['' @ (?a @ ''.'' @ ?b) @ '']'' @ s4" by (metis append_assoc)
  moreover have "id_form i"
    unfolding id_form_iff using i list_all_takeWhile by blast
  ultimately show ?thesis using i by simp
qed

lemma title_prefix_complete:
  assumes "id_form i"
  shows "title_prefix (''<title>['' @ i @ '']'' @ s4) = Some (i, s4)"
proof -
  from assms obtain a b where i: "i = a @ CHR ''.'' # b"
    and a: "list_all (in_cls Digit) a" and b: "list_all (in_cls Digit) b"
    unfolding id_form_iff by auto
  have 1: "takeWhile (in_cls Digit) (a @ CHR ''.'' # b @ CHR '']'' # s4) = a"
    using a by (simp add: takeWhile_run)
  have 2: "dropWhile (in_cls Digit) (a @ CHR ''.'' # b @ CHR '']'' # s4) = CHR ''.'' # b @ CHR '']'' # s4"
    using a by (simp add: dropWhile_run)
  have 3: "takeWhile (in_cls Digit) (b @ CHR '']'' # s4) = b"
    using b by (simp add: takeWhile_run)
  have 4: "dropWhile (in_cls Digit) (b @ CHR '']'' # s4) = CHR '']'' # s4"
    using b by (simp add: dropWhile_run)
  show ?thesis by (simp add: title_prefix_def i 1 2 3 4)
qed

lemma seq_group_star_lit:
  "rmatch (Seq (Group (Rep c 0 None)) (Lit w)) s =
     concat (map (\<lambda>j. if take (length w) (drop j s) = w
                      then [(take j s @ w, [take j s], drop (length w) (drop j s))] else [])
                 (rev [0..<Suc (length (takeWhile (in_cls c) s))]))"
proof -
  have "map (\<lambda>(u2, g2, t2). (take j s @ u2, take j s # g2, t2))
          (if take (length w) (drop j s) = w then [(w, [], drop (length w) (drop j s))] else []) =
        (if take (length w) (drop j s) = w
         then [(take j s @ w, [take j s], drop (length w) (drop j s))] else [])" for j
    by simp
  then show ?thesis by (simp add: rep_star o_def)
qed

lemma first_of_concat_rev:
  "concat (map f (rev [0..<n])) = h # rest \<Longrightarrow>
     \<exists>j<n. (\<exists>r. f j = h # r) \<and> (\<forall>j'. j < j' \<and> j' < n \<longrightarrow> f j' = [])"
proof (induction n)
  case 0
  then show ?case by simp
next
  case (Suc n)
  show ?case
  proof (cases "f n")
    case Nil
    with Suc.prems have "concat (map f (rev [0..<n])) = h # rest" by simp
    from Suc.IH [OF this] obtain j where j: "j < n" "\<exists>r. f j = h # r"
      "\<forall>j'. j < j' \<and> j' < n \<longrightarrow> f j' = []" by blast
    have "\<forall>j'. j < j' \<and> j' < Suc n \<longrightarrow> f j' = []"
      using j(3) Nil by (auto simp: less_Suc_eq)
    with j(1,2) show ?thesis by (intro exI [of _ j]) simp
  next
    case (Cons a list)
    with Suc.prems have "a = h" by simp
    with Cons show ?thesis by (intro exI [of _ n]) auto
  qed
qed

lemma rmatch_titlebody_sound:
  assumes "(u, g, t) \<in> set (rmatch titlebody s)"
  shows "\<exists>txt. u = txt @ ''</title>'' \<and> g = [txt] \<and> one_line txt"
proof -
  from assms have "\<exists>j. j \<le> length (takeWhile (in_cls AnyChar) s) \<and>
      u = take j s @ ''</title>'' \<and> g = [take j s]"
    unfolding titlebody_def seq_group_star_lit
    by (auto split: if_splits) (metis less_imp_le)
  then obtain j where j: "j \<le> length (takeWhile (in_cls AnyChar) s)"
    and u: "u = take j s @ ''</title>''" and g: "g = [take j s]" by blast
  from j have "one_line (take j s)" by (simp add: le_length_takeWhile one_line_def)
  with u g show ?thesis by blast
qed

lemma rmatch_titlebody_longest:
  assumes "one_line txt"
  shows "\<exists>u txt' t rest. rmatch titlebody (txt @ ''</title>'' @ y) = (u, [txt'], t) # rest \<and>
           length txt \<le> length txt'"
proof -
  let ?w = "''</title>''"
  let ?s = "txt @ ?w @ y"
  let ?m = "length (takeWhile (in_cls AnyChar) ?s)"
  let ?f = "\<lambda>j. if take (length ?w) (drop j ?s) = ?w
                 then [(take j ?s @ ?w, [take j ?s], drop (length ?w) (drop j ?s))] else []"
  have eq: "rmatch titlebody ?s = concat (map ?f (rev [0..<Suc ?m]))"
    unfolding titlebody_def by (rule seq_group_star_lit)
  have k: "length txt \<le> ?m" using assms by (simp add: le_length_takeWhile one_line_def)
  have fk: "?f (length txt) \<noteq> []" by simp
  have "concat (map ?f (rev [0..<Suc ?m])) \<noteq> []"
  proof
    assume "concat (map ?f (rev [0..<Suc ?m])) = []"
    then have all: "\<forall>j\<in>set (rev [0..<Suc ?m]). ?f j = []"
      by (simp only: concat_eq_Nil_conv set_map) blast
    have mem: "length txt \<in> set (rev [0..<Suc ?m])" using k by auto
    from bspec [OF all mem] fk show False by contradiction
  qed
  then obtain h rest where hr: "concat (map ?f (rev [0..<Suc ?m])) = h # rest"
    by (cases "concat (map ?f (rev [0..<Suc ?m]))") auto
  from first_of_concat_rev [OF hr] obtain j r where j: "j < Suc ?m" "?f j = h # r"
    "\<forall>j'. j < j' \<and> j' < Suc ?m \<longrightarrow> ?f j' = []" by blast
  have "\<not> j < length txt" using j(3) k fk by (metis le_imp_less_Suc)
  then have le: "length txt \<le> j" by simp
  have h: "h = (take j ?s @ ?w, [take j ?s], drop (length ?w) (drop j ?s))"
    using j(2) by (auto split: if_splits)
  have "j \<le> length ?s" using j(1) by (meson length_takeWhile_le less_Suc_eq_le le_trans)
  then have "length (take j ?s) = j" by simp
  with le h hr eq show ?thesis by (metis (no_types, lifting))
qed

lemma rmatch_title_sound:
  assumes "(u, g, t) \<in> set (rmatch FIND_TITLE_REGEX s)"
  shows "\<exists>i txt. u = title_elem i txt \<and> g = [i, txt] \<and> id_form i \<and> one_line txt"
proof -
  from assms have "\<exists>i s4 u' g'. title_prefix s = Some (i, s4) \<and>
      (u', g', t) \<in> set (rmatch titlebody s4) \<and> u = ''<title>['' @ i @ '']'' @ u' \<and> g = i # g'"
    unfolding rmatch_title by (cases "title_prefix s") auto
  then obtain i s4 u' g' where p: "title_prefix s = Some (i, s4)"
    and m: "(u', g', t) \<in> set (rmatch titlebody s4)"
    and u: "u = ''<title>['' @ i @ '']'' @ u'" and g: "g = i # g'" by blast
  from rmatch_titlebody_sound [OF m] obtain tt where
    "u' = tt @ ''</title>''" "g' = [tt]" "one_line tt" by blast
  with title_prefix_sound [OF p] u g show ?thesis by (auto simp: title_elem_def)
qed

lemma rmatch_title_longest:
  assumes "id_form i" and "one_line txt"
  shows "\<exists>u txt' t rest. rmatch FIND_TITLE_REGEX (title_elem i txt @ y) = (u, [i, txt'], t) # rest \<and>
           length txt \<le> length txt'"
proof -
  have s: "title_elem i txt @ y = ''<title>['' @ i @ '']'' @ (txt @ ''</title>'' @ y)"
    by (simp add: title_elem_def)
  have p: "title_prefix (title_elem i txt @ y) = Some (i, txt @ ''</title>'' @ y)"
    unfolding s by (rule title_prefix_complete [OF assms(1)])
  from rmatch_titlebody_longest [OF assms(2), of y] obtain u txt' t rest where
    "rmatch titlebody (txt @ ''</title>'' @ y) = (u, [txt'], t) # rest" "length txt \<le> length txt'"
    by blast
  then show ?thesis unfolding rmatch_title p by simp
qed

section \<open>The identifier extractor returns the first identifier\<close>

text \<open>
  Claim C4. If the line contains a text of the shape \<^verbatim>\<open>\d{4}\.\d{5,6}\<close>, then
  \<^verbatim>\<open>get_article_id\<close> returns such a text of the line: the one that starts first, and
  the longest one starting there, whatever surrounds it. If the line contains none, it
  raises \<^verbatim>\<open>ValueError\<close>. The function is pure: it has no effect beside its result.
\<close>

theorem get_article_id_first_match:
  "((\<exists>pre x post. line = pre @ x @ post \<and> id_shape x) \<longrightarrow>
      (\<exists>pre x post. get_article_id line = Inr x \<and> line = pre @ x @ post \<and> id_shape x \<and>
         (\<forall>pre' x' post'. line = pre' @ x' @ post' \<and> id_shape x' \<longrightarrow>
            length pre \<le> length pre' \<and> (length pre' = length pre \<longrightarrow> length x' \<le> length x)))) \<and>
   (\<not> (\<exists>pre x post. line = pre @ x @ post \<and> id_shape x) \<longrightarrow>
      get_article_id line = Inl (ValueError ''invalid input {}'' [Str line]))"
proof (intro conjI impI)
  assume "\<exists>pre x post. line = pre @ x @ post \<and> id_shape x"
  then obtain pre0 x0 post0 where d0: "line = pre0 @ x0 @ post0" "id_shape x0" by blast
  have at: "rmatch FIND_ID_REGEX (drop (length pre') line) \<noteq> []"
    if "line = pre' @ x' @ post'" "id_shape x'" for pre' x' post'
    using that rmatch_id_complete [of x' post'] by simp
  have "re_search FIND_ID_REGEX line \<noteq> None"
    using at [OF d0] d0(1) by (auto simp: re_search_None_iff intro!: exI [of _ "length pre0"])
  then obtain m where m: "re_search FIND_ID_REGEX line = Some m" by blast
  from re_search_Some [OF m] obtain i u g t rest where
    i: "i \<le> length line" "rmatch FIND_ID_REGEX (drop i line) = (u, g, t) # rest" "m = u # g"
       "\<forall>j<i. rmatch FIND_ID_REGEX (drop j line) = []" by blast
  have mem: "(u, g, t) \<in> set (rmatch FIND_ID_REGEX (drop i line))" using i(2) by simp
  have split: "drop i line = u @ t" using rmatch_split [OF mem] .
  have shape: "id_shape u" using rmatch_id_sound [OF mem] by simp
  have res: "get_article_id line = Inr u"
    using m i(3) by (simp add: get_article_id_def m_group_def)
  have dec: "line = take i line @ u @ t" using split by (metis append_take_drop_id)
  have minimal: "length (take i line) \<le> length pre' \<and>
      (length pre' = length (take i line) \<longrightarrow> length x' \<le> length u)"
    if d: "line = pre' @ x' @ post'" "id_shape x'" for pre' x' post'
  proof
    have "\<not> length pre' < i" using at [OF d] i(4) by blast
    then show "length (take i line) \<le> length pre'" using i(1) by simp
    show "length pre' = length (take i line) \<longrightarrow> length x' \<le> length u"
    proof
      assume "length pre' = length (take i line)"
      then have "length pre' = i" using i(1) by simp
      then have "drop i line = x' @ post'" using d(1) by simp
      then show "length x' \<le> length u"
        using rmatch_id_longest [of x' post' u g t rest] i(2) d(2) by simp
    qed
  qed
  show "\<exists>pre x post. get_article_id line = Inr x \<and> line = pre @ x @ post \<and> id_shape x \<and>
         (\<forall>pre' x' post'. line = pre' @ x' @ post' \<and> id_shape x' \<longrightarrow>
            length pre \<le> length pre' \<and> (length pre' = length pre \<longrightarrow> length x' \<le> length x))"
    using res dec shape minimal by blast
next
  assume none: "\<not> (\<exists>pre x post. line = pre @ x @ post \<and> id_shape x)"
  have "re_search FIND_ID_REGEX line = None"
  proof (rule ccontr)
    assume "re_search FIND_ID_REGEX line \<noteq> None"
    then obtain m where m: "re_search FIND_ID_REGEX line = Some m" by blast
    from re_search_Some [OF m] obtain i u g t rest where
      i: "rmatch FIND_ID_REGEX (drop i line) = (u, g, t) # rest" by blast
    have mem: "(u, g, t) \<in> set (rmatch FIND_ID_REGEX (drop i line))" using i by simp
    have "line = take i line @ u @ t" using rmatch_split [OF mem] by (metis append_take_drop_id)
    moreover have "id_shape u" using rmatch_id_sound [OF mem] by simp
    ultimately show False using none by blast
  qed
  then show "get_article_id line = Inl (ValueError ''invalid input {}'' [Str line])"
    by (simp add: get_article_id_def)
qed

theorem get_article_id_first_match_witness:
  "(\<exists>pre x post. ''see arXiv:1706.03762v5'' = pre @ x @ post \<and> id_shape x) \<and>
   get_article_id ''see arXiv:1706.03762v5'' = Inr ''1706.03762'' \<and>
   \<not> (\<exists>pre x post. ''1706.0376'' = pre @ x @ post \<and> id_shape x) \<and>
   get_article_id ''1706.0376'' = Inl (ValueError ''invalid input {}'' [Str ''1706.0376''])"
proof -
  have "''see arXiv:1706.03762v5'' = ''see arXiv:'' @ ''1706.03762'' @ ''v5'' \<and> id_shape ''1706.03762''"
    by (simp add: id_shape_def)
  then have h1: "\<exists>pre x post. ''see arXiv:1706.03762v5'' = pre @ x @ post \<and> id_shape x" by blast
  have h2: "\<not> (\<exists>pre x post. ''1706.0376'' = pre @ x @ post \<and> id_shape x)"
  proof
    assume "\<exists>pre x post. ''1706.0376'' = pre @ x @ post \<and> id_shape x"
    then obtain pre x post where d: "''1706.0376'' = pre @ x @ post" "id_shape x" by blast
    from d(1) have "length ''1706.0376'' = length (pre @ x @ post)" by (rule arg_cong)
    then have "length x \<le> 9" by simp
    with d(2) show False by (simp add: id_shape_def)
  qed
  from get_article_id_first_match [of "''see arXiv:1706.03762v5''"] h1
  have "\<exists>x. get_article_id ''see arXiv:1706.03762v5'' = Inr x" by blast
  moreover have "get_article_id ''see arXiv:1706.03762v5'' = Inr ''1706.03762''" by code_simp
  moreover from get_article_id_first_match [of "''1706.0376''"] h2
  have "get_article_id ''1706.0376'' = Inl (ValueError ''invalid input {}'' [Str ''1706.0376''])"
    by blast
  ultimately show ?thesis using h1 h2 by blast
qed

section \<open>The result of the article pipeline\<close>

text \<open>
  Claim C1, as stated: the pipeline returns the pair in the order (title, content), and on
  the example input it returns the title \<^verbatim>\<open>Attention Is All You Need\<close> first and the bytes
  \<^verbatim>\<open>%PDF-FAKE\<close> second. On that input \<^verbatim>\<open>process_one_article\<close> returns the bytes first and
  the title second.
\<close>

theorem process_one_article_order_counterexample:
  "fst (process_one_article mock_session ''1706.03762'') =
     Inr (Bytes ''%PDF-FAKE'', Str ''Attention Is All You Need'') \<and>
   fst (process_one_article mock_session ''1706.03762'') \<noteq>
     Inr (Str ''Attention Is All You Need'', Bytes ''%PDF-FAKE'')"
  by code_simp

text \<open>
  Claim C1, amended: every successful run of \<^verbatim>\<open>process_one_article\<close> returns the pair in
  the order (content, title): the bytes fetched for the identifier of the line, then the
  title of the summary whose identifier passed the cross-check.
\<close>

theorem process_one_article_result:
  "fst (process_one_article session line) = Inr r \<Longrightarrow>
     \<exists>aid title content.
       r = (Bytes content, Str title) \<and> get_article_id line = Inr aid \<and>
       fst (get_pdf_name session aid) = Inr (aid, title) \<and>
       fst (get_pdf_file session aid) = Inr content"
  by (auto simp: process_one_article_def Let_def split: sum.splits prod.splits if_splits)

theorem process_one_article_result_witness:
  "fst (process_one_article mock_session ''1706.03762'') =
     Inr (Bytes ''%PDF-FAKE'', Str ''Attention Is All You Need'') \<and>
   (\<exists>aid title content.
       (Bytes ''%PDF-FAKE'', Str ''Attention Is All You Need'') = (Bytes content, Str title) \<and>
       get_article_id ''1706.03762'' = Inr aid \<and>
       fst (get_pdf_name mock_session aid) = Inr (aid, title) \<and>
       fst (get_pdf_file mock_session aid) = Inr content)"
proof -
  have h: "fst (process_one_article mock_session ''1706.03762'') =
     Inr (Bytes ''%PDF-FAKE'', Str ''Attention Is All You Need'')" by code_simp
  from process_one_article_result [OF h] h show ?thesis by blast
qed

section \<open>The identity cross-check precedes the content fetch\<close>

lemma pdf_url_not_abs: "ARXIV_PDF_URL_BASE @ x \<noteq> ARXIV_ABS_URL_BASE @ y"
  by (simp add: ARXIV_PDF_URL_BASE_def ARXIV_ABS_URL_BASE_def)

lemma snd_get_pdf_name: "snd (get_pdf_name session aid) = [Request (ARXIV_ABS_URL_BASE @ aid)]"
  by (simp add: get_pdf_name_def Let_def split: sum.splits option.splits)

lemma snd_get_pdf_file: "snd (get_pdf_file session aid) = [Request (ARXIV_PDF_URL_BASE @ aid)]"
  by (simp add: get_pdf_file_def Let_def split: sum.splits)

text \<open>
  Claim C5. When the identifier embedded in the summary differs from the one extracted from
  the line, \<^verbatim>\<open>process_one_article\<close> raises \<^verbatim>\<open>AssertionError\<close> naming both identifiers, and the run
  has issued the summary request only: no request to the document endpoint. Conversely, a
  run that has requested a document has requested exactly the one of its own identifier,
  after the summary request, and the summary's identifier was equal to it.
\<close>

theorem identity_mismatch_before_content_fetch:
  "(get_article_id line = Inr aid \<and> fst (get_pdf_name session aid) = Inr (parsed_aid, title) \<and>
      parsed_aid \<noteq> aid \<longrightarrow>
      fst (process_one_article session line) =
        Inl (AssertionError ''id {} obtained from input does not match id {} from server''
               [Str aid, Str parsed_aid]) \<and>
      snd (process_one_article session line) =
        [LogInfo ''processing article {}'' [Str aid], Request (ARXIV_ABS_URL_BASE @ aid)] \<and>
      (\<forall>x. Request (ARXIV_PDF_URL_BASE @ x) \<notin> set (snd (process_one_article session line)))) \<and>
   (Request (ARXIV_PDF_URL_BASE @ x) \<in> set (snd (process_one_article session line)) \<longrightarrow>
      (\<exists>aid title. get_article_id line = Inr aid \<and>
         fst (get_pdf_name session aid) = Inr (aid, title) \<and> x = aid \<and>
         snd (process_one_article session line) =
           [LogInfo ''processing article {}'' [Str aid], Request (ARXIV_ABS_URL_BASE @ aid),
            Request (ARXIV_PDF_URL_BASE @ aid)]))"
proof (intro conjI impI)
  assume h: "get_article_id line = Inr aid \<and>
    fst (get_pdf_name session aid) = Inr (parsed_aid, title) \<and> parsed_aid \<noteq> aid"
  obtain tr where tr: "get_pdf_name session aid = (Inr (parsed_aid, title), tr)"
    using h by (cases "get_pdf_name session aid") auto
  have tr_eq: "tr = [Request (ARXIV_ABS_URL_BASE @ aid)]"
    using snd_get_pdf_name [of session aid] tr by simp
  show "fst (process_one_article session line) =
        Inl (AssertionError ''id {} obtained from input does not match id {} from server''
               [Str aid, Str parsed_aid])"
    using h tr by (auto simp: process_one_article_def Let_def)
  show t: "snd (process_one_article session line) =
        [LogInfo ''processing article {}'' [Str aid], Request (ARXIV_ABS_URL_BASE @ aid)]"
    using h tr tr_eq by (auto simp: process_one_article_def Let_def)
  show "\<forall>x. Request (ARXIV_PDF_URL_BASE @ x) \<notin> set (snd (process_one_article session line))"
    using t by (simp add: pdf_url_not_abs)
next
  assume req: "Request (ARXIV_PDF_URL_BASE @ x) \<in> set (snd (process_one_article session line))"
  show "\<exists>aid title. get_article_id line = Inr aid \<and>
         fst (get_pdf_name session aid) = Inr (aid, title) \<and> x = aid \<and>
         snd (process_one_article session line) =
           [LogInfo ''processing article {}'' [Str aid], Request (ARXIV_ABS_URL_BASE @ aid),
            Request (ARXIV_PDF_URL_BASE @ aid)]"
  proof (cases "get_article_id line")
    case (Inl e)
    with req show ?thesis by (simp add: process_one_article_def)
  next
    case (Inr aid)
    obtain r tr1 where n: "get_pdf_name session aid = (r, tr1)"
      by (cases "get_pdf_name session aid")
    have tr1: "tr1 = [Request (ARXIV_ABS_URL_BASE @ aid)]"
      using snd_get_pdf_name [of session aid] n by simp
    obtain r2 tr2 where f: "get_pdf_file session aid = (r2, tr2)"
      by (cases "get_pdf_file session aid")
    have tr2: "tr2 = [Request (ARXIV_PDF_URL_BASE @ aid)]"
      using snd_get_pdf_file [of session aid] f by simp
    show ?thesis
    proof (cases r)
      case (Inl e)
      with req Inr n tr1 show ?thesis
        by (simp add: process_one_article_def Let_def pdf_url_not_abs)
    next
      case r: (Inr p)
      obtain parsed_aid text_title where p: "p = (parsed_aid, text_title)" by (cases p)
      show ?thesis
      proof (cases "aid = parsed_aid")
        case False
        with req Inr n tr1 r p show ?thesis
          by (simp add: process_one_article_def Let_def pdf_url_not_abs)
      next
        case True
        with req Inr n tr1 r p f tr2 show ?thesis
          by (cases r2) (auto simp: process_one_article_def Let_def pdf_url_not_abs)
      qed
    qed
  qed
qed

theorem identity_mismatch_before_content_fetch_witness:
  "(get_article_id ''1706.03762'' = Inr ''1706.03762'' \<and>
    fst (get_pdf_name mismatch_session ''1706.03762'') = Inr (''1706.99999'', ''Something Else'') \<and>
    ''1706.99999'' \<noteq> ''1706.03762'') \<and>
   fst (process_one_article mismatch_session ''1706.03762'') =
     Inl (AssertionError ''id {} obtained from input does not match id {} from server''
            [Str ''1706.03762'', Str ''1706.99999'']) \<and>
   (\<forall>x. Request (ARXIV_PDF_URL_BASE @ x) \<notin>
      set (snd (process_one_article mismatch_session ''1706.03762''))) \<and>
   Request (ARXIV_PDF_URL_BASE @ ''1706.03762'') \<in>
      set (snd (process_one_article mock_session ''1706.03762'')) \<and>
   (\<exists>title. fst (get_pdf_name mock_session ''1706.03762'') = Inr (''1706.03762'', title))"
proof -
  have h1: "get_article_id ''1706.03762'' = Inr ''1706.03762'' \<and>
    fst (get_pdf_name mismatch_session ''1706.03762'') = Inr (''1706.99999'', ''Something Else'') \<and>
    ''1706.99999'' \<noteq> ''1706.03762''" by code_simp
  have h2: "Request (ARXIV_PDF_URL_BASE @ ''1706.03762'') \<in>
      set (snd (process_one_article mock_session ''1706.03762''))" by code_simp
  from identity_mismatch_before_content_fetch
         [of "''1706.03762''" "''1706.03762''" mismatch_session "''1706.99999''" "''Something Else''"]
       h1
  have a: "fst (process_one_article mismatch_session ''1706.03762'') =
     Inl (AssertionError ''id {} obtained from input does not match id {} from server''
            [Str ''1706.03762'', Str ''1706.99999'']) \<and>
   (\<forall>x. Request (ARXIV_PDF_URL_BASE @ x) \<notin>
      set (snd (process_one_article mismatch_session ''1706.03762'')))" by blast
  from identity_mismatch_before_content_fetch
         [of "''1706.03762''" _ mock_session _ _ "''1706.03762''"] h2
  have b: "\<exists>title. fst (get_pdf_name mock_session ''1706.03762'') = Inr (''1706.03762'', title)"
    by blast
  from h1 a h2 b show ?thesis by blast
qed

section \<open>Parsing the input option\<close>

lemma split_str_nonempty: "split_str c s \<noteq> []"
  by (cases s) (auto split: list.splits)

text \<open>
  Claim C10. Splitting any string on commas yields at least one piece, so
  \<^verbatim>\<open>generate_article_list\<close> never raises the \<^verbatim>\<open>ValueError\<close> of its \<^verbatim>\<open>len(ret) == 0\<close> branch.
\<close>

theorem generate_article_list_empty_branch_unreachable:
  "0 < length (map strip (split_str CHR '','' s)) \<and>
   (\<forall>fmt_args. generate_article_list w input_str \<noteq>
      Inl (ValueError ''--input invalid; got {}'' fmt_args))"
  by (auto simp: generate_article_list_def Let_def split_str_nonempty py_open_def
      split: sum.splits)

text \<open>
  Claim C3 says that the path of an existing file yields one entry per line of the file.
  The file \<^verbatim>\<open>ids.txt\<close> exists and its lines are the two identifiers, yet
  \<^verbatim>\<open>generate_article_list\<close> raises \<^verbatim>\<open>TypeError\<close>: it passes the list \<^verbatim>\<open>ret\<close> to \<^verbatim>\<open>open\<close>, not
  the path \<^verbatim>\<open>ret[0]\<close>.
\<close>

theorem generate_article_list_file_raises:
  "isfile ids_world ''ids.txt'' \<and>
   generate_article_list ids_world (Some ''ids.txt'') = Inl TypeError \<and>
   map rstrip_nl (file_lines (the (map_of (files ids_world) ''ids.txt''))) =
     [''1706.03762'', ''1512.03385'']"
  by code_simp

text \<open>The same happens for every path of an existing file that has no comma.\<close>

lemma split_str_no_sep: "c \<notin> set s \<Longrightarrow> split_str c s = [s]"
  by (induction s) auto

lemma generate_article_list_file_TypeError:
  assumes "p \<noteq> []" and "CHR '','' \<notin> set p" and "isfile w (strip p)"
  shows "generate_article_list w (Some p) = Inl TypeError"
  using assms by (simp add: generate_article_list_def split_str_no_sep py_open_def)

section \<open>The batch coordinator\<close>

text \<open>
  Claim C2 says that the line logged with a title is the line whose pipeline run produced
  that title, in every completion order. With two lines of which the second completes
  first, \<^verbatim>\<open>main\<close> logs the first line with the title of the second and the second line with
  the title of the first: the index it uses counts completions, not input lines.
\<close>

theorem main_logs_completion_index:
  "main two_session second_first [''1706.03762'', ''1512.03385''] None () =
     (Inr (),
      [GotFile ''1706.03762'' (Str ''Deep Residual Learning''),
       GotFile ''1512.03385'' (Str ''Attention Is All You Need'')],
      ()) \<and>
   fst (process_one_article two_session ''1706.03762'') =
     Inr (Bytes ''%PDF-A'', Str ''Attention Is All You Need'') \<and>
   fst (process_one_article two_session ''1512.03385'') =
     Inr (Bytes ''%PDF-B'', Str ''Deep Residual Learning'')"
  by code_simp

lemma invocations_append: "invocations (a @ b) = invocations a @ invocations b"
  by (induction a rule: invocations.induct) auto

lemma main_loop_invocations:
  "(t, c) \<in> set (invocations (fst (snd (main_loop al pf tasks tr w)))) \<Longrightarrow>
     (t, c) \<in> set (invocations tr) \<or> (\<exists>i. (i, Inr (c, t)) \<in> set tasks)"
proof (induction tasks arbitrary: tr w)
  case Nil
  then show ?case by simp
next
  case (Cons x tasks)
  obtain aidx r where x: "x = (aidx, r)" by (cases x)
  show ?case
  proof (cases r)
    case (Inl e)
    with Cons.prems x show ?thesis by simp
  next
    case (Inr p)
    obtain pdf_file title where p: "p = (pdf_file, title)" by (cases p)
    show ?thesis
    proof (cases "aidx < length al")
      case False
      with Cons.prems x Inr p show ?thesis by simp
    next
      case True
      show ?thesis
      proof (cases pf)
        case None
        with Cons.prems x Inr p True
        have "(t, c) \<in> set (invocations (fst (snd (main_loop al pf tasks
                (tr @ [GotFile (al ! aidx) title]) w))))" by (simp add: Let_def)
        from Cons.IH [OF this] show ?thesis by (auto simp: invocations_append)
      next
        case (Some f)
        obtain r1 w1 where f: "f title pdf_file w = (r1, w1)" by (cases "f title pdf_file w")
        show ?thesis
        proof (cases r1)
          case (Inl e)
          with Cons.prems x Inr p True Some f show ?thesis
            by (auto simp: Let_def invocations_append)
        next
          case r1: (Inr u)
          with Cons.prems x Inr p True Some f
          have "(t, c) \<in> set (invocations (fst (snd (main_loop al pf tasks
                  (tr @ [GotFile (al ! aidx) title] @ [Invoke title pdf_file]) w1))))"
            by (simp add: Let_def)
          from Cons.IH [OF this] x Inr p show ?thesis by (auto simp: invocations_append)
        qed
      qed
    qed
  qed
qed

lemma as_completed_nth:
  "x \<in> set (as_completed delay tasks) \<Longrightarrow> \<exists>k<length tasks. x = tasks ! k"
  by (auto simp: as_completed_def)

text \<open>
  Claim C9. The title and the content that \<^verbatim>\<open>main\<close> passes together to the post-processing
  function are the two components of the pair returned by one call of
  \<^verbatim>\<open>process_one_article\<close>, the one for some line of the batch.
\<close>

theorem callback_arguments_from_one_run:
  "(title, content) \<in> set (invocations (fst (snd (main session delay article_list postproc_fn w)))) \<Longrightarrow>
     \<exists>k<length article_list.
        fst (process_one_article session (article_list ! k)) = Inr (content, title)"
proof -
  assume "(title, content) \<in> set (invocations (fst (snd (main session delay article_list postproc_fn w))))"
  then have "\<exists>i. (i, Inr (content, title)) \<in> set (enumerate 0 (as_completed delay
          (map (\<lambda>a. fst (process_one_article session a)) article_list)))"
    unfolding main_def using main_loop_invocations by fastforce
  then have "Inr (content, title) \<in> set (as_completed delay
          (map (\<lambda>a. fst (process_one_article session a)) article_list))"
    by (auto simp: in_set_enumerate_eq) (metis nth_mem)
  from as_completed_nth [OF this] show ?thesis by auto
qed

theorem callback_arguments_from_one_run_witness:
  "(Str ''Deep Residual Learning'', Bytes ''%PDF-B'') \<in> set (invocations (fst (snd
      (main two_session second_first [''1706.03762'', ''1512.03385'']
         (Some (\<lambda>t c w. (Inr (), Suc w))) (0::nat))))) \<and>
   (\<exists>k<length [''1706.03762'', ''1512.03385''].
      fst (process_one_article two_session ([''1706.03762'', ''1512.03385''] ! k)) =
        Inr (Bytes ''%PDF-B'', Str ''Deep Residual Learning''))"
proof -
  have h: "(Str ''Deep Residual Learning'', Bytes ''%PDF-B'') \<in> set (invocations (fst (snd
      (main two_session second_first [''1706.03762'', ''1512.03385'']
         (Some (\<lambda>t c w. (Inr (), Suc w))) (0::nat)))))" by code_simp
  from callback_arguments_from_one_run [OF h] h show ?thesis by blast
qed





section \<open>The temporary directory\<close>

lemma main_loop_preserves:
  assumes "\<And>t c w. P w \<Longrightarrow> P (snd (f t c w))" and "P w"
  shows "P (snd (snd (main_loop al (Some f) tasks tr w)))"
  using assms(2)
proof (induction tasks arbitrary: tr w)
  case Nil
  then show ?case by simp
next
  case (Cons x tasks)
  obtain aidx r where x: "x = (aidx, r)" by (cases x)
  show ?case
  proof (cases r)
    case (Inl e)
    with Cons.prems x show ?thesis by simp
  next
    case (Inr p)
    obtain pdf_file title where p: "p = (pdf_file, title)" by (cases p)
    obtain r1 w1 where f: "f title pdf_file w = (r1, w1)" by (cases "f title pdf_file w")
    have w1: "P w1" using assms(1) [OF Cons.prems, of title pdf_file] f by simp
    show ?thesis
    proof (cases "aidx < length al")
      case False
      with Cons.prems x Inr p show ?thesis by simp
    next
      case True
      show ?thesis
      proof (cases r1)
        case (Inl e)
        with x Inr p True f w1 show ?thesis by (simp add: Let_def)
      next
        case r1: (Inr u)
        with x Inr p True f Cons.IH [OF w1] show ?thesis by (simp add: Let_def)
      qed
    qed
  qed
qed

lemma kept_log_info: "kept D T ops (log_info t fa w) = kept D T ops w"
  by (simp add: kept_def log_info_def)

lemma kept_postprocess_fn:
  "kept D T ops w \<Longrightarrow> kept D T ops (snd (postprocess_fn e save_fn print_fn t c w))"
  by (auto simp: kept_def postprocess_fn_def save_file_fn_def print_one_file_def log_info_def
      Let_def split: option.splits pyval.splits sum.splits if_splits)

lemma setup_printing_world:
  "\<exists>t fa. snd (setup_printing c p w) = log_info t fa w"
  by (auto simp: setup_printing_def Let_def split: option.splits)

lemma fst_setup_printing:
  "fst (setup_printing c p w) = fst (setup_printing c p w')"
  by (auto simp: setup_printing_def Let_def split: option.splits)

lemma mkdtemp_name_nonempty: "mkdtemp_name w \<noteq> []"
  by (simp add: mkdtemp_name_def)

lemma length_le_foldr_max: "x \<in> set xs \<Longrightarrow> x \<le> foldr max xs (0::nat)"
  by (induction xs) auto

lemma mkdtemp_name_fresh: "mkdtemp_name w \<notin> set (dirs w)"
proof
  assume "mkdtemp_name w \<in> set (dirs w)"
  then have "length (mkdtemp_name w) \<in> set (map length (dirs w @ map fst (files w)))" by auto
  from length_le_foldr_max [OF this] show False by (simp add: mkdtemp_name_def)
qed

lemma try_block_print_only:
  assumes "arg_save a = None \<or> arg_save a = Some []"
    and "setup_printing (cups e) (arg_print a) w = (Some name, w1)"
  shows "kept (mkdtemp_name w1 # dirs w1) (Some (mkdtemp_name w1))
           (fs_ops w1 @ [Mkdtemp (mkdtemp_name w1)]) (snd (snd (try_block e a w)))"
proof -
  let ?d = "mkdtemp_name w1"
  let ?w2 = "log_info ''saving to {}'' [Str ?d]
               (w1\<lparr>dirs := ?d # dirs w1, fs_ops := fs_ops w1 @ [Mkdtemp ?d], temp_dir := Some ?d\<rparr>)"
  have s: "setup_saving e (arg_save a) (Some name) w1 = (Inr (Some ?d), ?w2)"
    using assms(1) by (auto simp: setup_saving_def Let_def)
  have k2: "kept (?d # dirs w1) (Some ?d) (fs_ops w1 @ [Mkdtemp ?d]) ?w2"
    by (simp add: kept_def log_info_def)
  show ?thesis
  proof (cases "generate_article_list ?w2 (arg_input a)")
    case (Inl err)
    with assms(2) s k2 show ?thesis by (simp add: try_block_def)
  next
    case (Inr articles)
    have "kept (?d # dirs w1) (Some ?d) (fs_ops w1 @ [Mkdtemp ?d])
            (snd (snd (main (net e) (completion_delay e) articles
               (Some (postprocess_fn e (Some ?d) (Some name)))
               (log_info ''given {} as input'' [Str (join_str '','' articles)] ?w2))))"
      unfolding main_def
      by (rule main_loop_preserves [where P = "kept (?d # dirs w1) (Some ?d) (fs_ops w1 @ [Mkdtemp ?d])"])
         (use k2 in \<open>simp_all add: kept_postprocess_fn kept_log_info\<close>)
    with assms(2) s Inr show ?thesis by (simp add: try_block_def)
  qed
qed

text \<open>
  Claim C8, as stated: whenever printing is requested without a save directory, a
  temporary directory is created. With \<^verbatim>\<open>--print\<close>, no \<^verbatim>\<open>--save\<close> and no print library
  installed, \<^verbatim>\<open>setup_printing\<close> returns \<^verbatim>\<open>None\<close>, \<^verbatim>\<open>setup_saving\<close> returns at its first test,
  and the script ends without having created any directory.
\<close>

theorem no_temp_dir_without_printer_counterexample:
  "arg_print print_only_args \<and> arg_save print_only_args = None \<and>
   fst (script no_pycups_env print_only_args ids_world) = Inr () \<and>
   fs_ops (snd (snd (script no_pycups_env print_only_args ids_world))) = [] \<and>
   dirs (snd (snd (script no_pycups_env print_only_args ids_world))) = dirs ids_world \<and>
   temp_dir (snd (snd (script no_pycups_env print_only_args ids_world))) = None"
  by code_simp

text \<open>
  Claim C8, amended: whenever printing is requested, the printer setup succeeds and no save
  directory is given, the script creates a temporary directory under a fresh name, and its
  \<^verbatim>\<open>finally\<close> clause removes that directory as its last file-system operation, whether the
  \<^verbatim>\<open>try\<close> body returned or raised: the outcome of the script is the outcome of the body.
\<close>

theorem temp_dir_removed_in_every_outcome:
  assumes "arg_save a = None \<or> arg_save a = Some []"
    and "fst (setup_printing (cups e) (arg_print a) w) = Some name"
  shows "\<exists>d more. fs_ops (snd (snd (script e a w))) = fs_ops w @ [Mkdtemp d] @ more @ [Rmtree d] \<and>
           d \<notin> set (dirs w) \<and>
           d \<notin> set (dirs (snd (snd (script e a w)))) \<and>
           fst (script e a w) = fst (try_block e a (w\<lparr>temp_dir := None\<rparr>))"
proof -
  let ?w0 = "w\<lparr>temp_dir := None\<rparr>"
  obtain p w1 where sp: "setup_printing (cups e) (arg_print a) ?w0 = (p, w1)"
    by (cases "setup_printing (cups e) (arg_print a) ?w0")
  have "p = Some name"
    using assms(2) sp fst_setup_printing [of "cups e" "arg_print a" w ?w0] by simp
  with sp have sp': "setup_printing (cups e) (arg_print a) ?w0 = (Some name, w1)" by simp
  obtain t fa where "w1 = log_info t fa ?w0"
    using setup_printing_world [of "cups e" "arg_print a" ?w0] sp by auto
  then have w1: "dirs w1 = dirs w" "fs_ops w1 = fs_ops w" by (simp_all add: log_info_def)
  let ?d = "mkdtemp_name w1"
  obtain r tr w' where tb: "try_block e a ?w0 = (r, tr, w')"
    by (cases "try_block e a ?w0") auto
  from try_block_print_only [OF assms(1) sp'] tb
  have k: "kept (?d # dirs w1) (Some ?d) (fs_ops w1 @ [Mkdtemp ?d]) w'" by simp
  then obtain more where w': "dirs w' = ?d # dirs w" "temp_dir w' = Some ?d"
      "fs_ops w' = fs_ops w @ [Mkdtemp ?d] @ more"
    using w1 by (auto simp: kept_def)
  have fresh: "?d \<notin> set (dirs w)" using mkdtemp_name_fresh [of w1] w1 by simp
  let ?w2 = "log_info ''deleting temporary directory'' [] w'"
  let ?w3 = "?w2\<lparr>dirs := filter (\<lambda>p. \<not> below ?d p) (dirs ?w2),
                  files := filter (\<lambda>(p, c). \<not> below ?d p) (files ?w2),
                  fs_ops := fs_ops ?w2 @ [Rmtree ?d]\<rparr>"
  have rm: "rmtree ?d ?w2 = Inr ?w3"
    using w'(1) by (simp add: rmtree_def log_info_def)
  have sc: "script e a w = (r, tr, ?w3)"
    using tb w'(2) rm mkdtemp_name_nonempty [of w1]
    by (simp add: script_def Let_def log_info_def)
  have "fs_ops ?w3 = fs_ops w @ [Mkdtemp ?d] @ more @ [Rmtree ?d]"
    using w'(3) by (simp add: log_info_def)
  moreover have "?d \<notin> set (dirs ?w3)" by (simp add: below_def)
  ultimately show ?thesis using fresh sc tb
    by (intro exI [of _ ?d] exI [of _ more]) simp
qed

theorem temp_dir_removed_in_every_outcome_witness:
  "(arg_save print_only_args = None \<or> arg_save print_only_args = Some []) \<and>
   fst (setup_printing (cups printer_env) (arg_print print_only_args) ids_world) = Some ''office'' \<and>
   fst (setup_printing (cups offline_env) (arg_print print_only_args) ids_world) = Some ''office'' \<and>
   fst (script printer_env print_only_args ids_world) = Inr () \<and>
   (\<exists>d more. fs_ops (snd (snd (script printer_env print_only_args ids_world))) =
        fs_ops ids_world @ [Mkdtemp d] @ more @ [Rmtree d] \<and>
      d \<notin> set (dirs (snd (snd (script printer_env print_only_args ids_world))))) \<and>
   fst (script offline_env print_only_args ids_world) = Inl ClientConnectionError \<and>
   (\<exists>d more. fs_ops (snd (snd (script offline_env print_only_args ids_world))) =
        fs_ops ids_world @ [Mkdtemp d] @ more @ [Rmtree d] \<and>
      d \<notin> set (dirs (snd (snd (script offline_env print_only_args ids_world)))))"
proof -
  have h0: "arg_save print_only_args = None \<or> arg_save print_only_args = Some []"
    by (simp add: print_only_args_def)
  have h1: "fst (setup_printing (cups printer_env) (arg_print print_only_args) ids_world) = Some ''office''"
    by code_simp
  have h2: "fst (setup_printing (cups offline_env) (arg_print print_only_args) ids_world) = Some ''office''"
    by code_simp
  have r1: "fst (script printer_env print_only_args ids_world) = Inr ()" by code_simp
  have r2: "fst (script offline_env print_only_args ids_world) = Inl ClientConnectionError"
    by code_simp
  from temp_dir_removed_in_every_outcome [OF h0 h1]
  have a: "\<exists>d more. fs_ops (snd (snd (script printer_env print_only_args ids_world))) =
        fs_ops ids_world @ [Mkdtemp d] @ more @ [Rmtree d] \<and>
      d \<notin> set (dirs (snd (snd (script printer_env print_only_args ids_world))))" by blast
  from temp_dir_removed_in_every_outcome [OF h0 h2]
  have b: "\<exists>d more. fs_ops (snd (snd (script offline_env print_only_args ids_world))) =
        fs_ops ids_world @ [Mkdtemp d] @ more @ [Rmtree d] \<and>
      d \<notin> set (dirs (snd (snd (script offline_env print_only_args ids_world))))" by blast
  from h0 h1 h2 r1 a r2 b show ?thesis by blast
qed

section \<open>The metadata fetcher\<close>

lemma get_pdf_name_ok:
  assumes "session (ARXIV_ABS_URL_BASE @ aid) = Inr resp" and "status resp < 400"
  shows "fst (get_pdf_name session aid) =
           (case re_search FIND_TITLE_REGEX (body resp) of
              None \<Rightarrow> Inl AttributeError
            | Some m \<Rightarrow>
                (case m_group m 1 of
                   Inl e \<Rightarrow> Inl e
                 | Inr g1 \<Rightarrow> (case m_group m 2 of Inl e \<Rightarrow> Inl e | Inr g2 \<Rightarrow> Inr (g1, strip g2))))"
  using assms
  by (simp add: get_pdf_name_def raise_for_status_def Let_def split: option.splits sum.splits)

text \<open>
  What \<^verbatim>\<open>str.strip()\<close> leaves: the text without the whitespace before and after it.
\<close>

lemma strip_spec:
  "\<exists>l r. t = l @ strip t @ r \<and> list_all is_space l \<and> list_all is_space r \<and>
     (strip t = [] \<or> (\<not> is_space (hd (strip t)) \<and> \<not> is_space (last (strip t))))"
proof -
  let ?l = "takeWhile is_space t"
  let ?m = "dropWhile is_space t"
  let ?r = "rev (takeWhile is_space (rev ?m))"
  have m: "?m = strip t @ ?r"
    unfolding strip_def by (metis rev_append rev_rev_ident takeWhile_dropWhile_id)
  have t: "t = ?l @ strip t @ ?r" using m by (metis takeWhile_dropWhile_id)
  have l: "list_all is_space ?l" by (rule list_all_takeWhile)
  have r: "list_all is_space ?r"
    using list_all_takeWhile [of is_space "rev ?m"] by (simp add: list_all_iff)
  have e: "\<not> is_space (hd (strip t)) \<and> \<not> is_space (last (strip t))" if ne: "strip t \<noteq> []"
  proof
    have "?m \<noteq> []" using m ne by (metis append_is_Nil_conv)
    then have "\<not> is_space (hd ?m)" by (rule hd_dropWhile)
    moreover have "hd ?m = hd (strip t)" using m ne by (metis hd_append2)
    ultimately show "\<not> is_space (hd (strip t))" by simp
    have d: "dropWhile is_space (rev ?m) \<noteq> []" using ne by (simp add: strip_def)
    have "last (strip t) = hd (dropWhile is_space (rev ?m))"
      using d by (simp add: strip_def last_rev)
    with hd_dropWhile [OF d] show "\<not> is_space (last (strip t))" by simp
  qed
  from t l r e show ?thesis by blast
qed

text \<open>
  Claim C6, as stated: \<^verbatim>\<open>get_pdf_name\<close> returns the identifier and the trimmed title text of
  the first title element. The body below consists of two title elements on one line; the
  first is \<^verbatim>\<open><title>[1.2] A</title>\<close>, with the title text \<^verbatim>\<open>A\<close>. \<^verbatim>\<open>get_pdf_name\<close> returns a
  title that runs on through the closing tag into the second element.
\<close>

theorem get_pdf_name_two_elements_counterexample:
  "two_titles_session (ARXIV_ABS_URL_BASE @ ''1.2'') =
     Inr \<lparr>status = 200, body = title_elem ''1.2'' '' A'' @ title_elem ''3.4'' '' B''\<rparr> \<and>
   id_form ''1.2'' \<and> one_line '' A'' \<and>
   fst (get_pdf_name two_titles_session ''1.2'') = Inr (''1.2'', ''A</title><title>[3.4] B'') \<and>
   fst (get_pdf_name two_titles_session ''1.2'') \<noteq> Inr (''1.2'', ''A'')"
  by code_simp

text \<open>
  Claim C6, amended. For a response with a success status (below 400, so that
  \<^verbatim>\<open>raise_for_status\<close> returns): if the body contains a text \<^verbatim>\<open><title>[i]t</title>\<close> with \<open>i\<close>
  of the form digits, dot, digits and \<open>t\<close> on one line, \<^verbatim>\<open>get_pdf_name\<close> returns separately
  the identifier and the title text of such a text: the one that starts first in the
  body, whose identifier is then determined, with the longest \<open>t\<close> possible there, which
  runs to the last \<^verbatim>\<open></title>\<close> of the line and so may contain further tags. The title
  returned is \<open>t\<close> without the whitespace before and after it: it neither starts nor ends
  with whitespace. If the body contains no such text, \<^verbatim>\<open>re.search\<close> returns \<^verbatim>\<open>None\<close> and
  \<^verbatim>\<open>match.group\<close> raises \<^verbatim>\<open>AttributeError\<close>.
\<close>

theorem get_pdf_name_first_title:
  assumes "session (ARXIV_ABS_URL_BASE @ aid) = Inr resp" and "status resp < 400"
  shows
  "((\<exists>pre i t post. body resp = pre @ title_elem i t @ post \<and> id_form i \<and> one_line t) \<longrightarrow>
      (\<exists>pre i t post l title r.
         fst (get_pdf_name session aid) = Inr (i, title) \<and>
         body resp = pre @ title_elem i t @ post \<and> id_form i \<and> one_line t \<and>
         t = l @ title @ r \<and> list_all is_space l \<and> list_all is_space r \<and>
         (title = [] \<or> (\<not> is_space (hd title) \<and> \<not> is_space (last title))) \<and>
         (\<forall>pre' i' t' post'.
            body resp = pre' @ title_elem i' t' @ post' \<and> id_form i' \<and> one_line t' \<longrightarrow>
            length pre \<le> length pre' \<and>
            (length pre' = length pre \<longrightarrow> i' = i \<and> length t' \<le> length t)))) \<and>
   (\<not> (\<exists>pre i t post. body resp = pre @ title_elem i t @ post \<and> id_form i \<and> one_line t) \<longrightarrow>
      fst (get_pdf_name session aid) = Inl AttributeError)"
proof (intro conjI impI)
  let ?xml = "body resp"
  assume "\<exists>pre i t post. ?xml = pre @ title_elem i t @ post \<and> id_form i \<and> one_line t"
  then obtain pre0 i0 t0 post0 where
    d0: "?xml = pre0 @ title_elem i0 t0 @ post0" "id_form i0" "one_line t0" by blast
  have at: "\<exists>u t'' t rest. rmatch FIND_TITLE_REGEX (drop (length pre') ?xml) = (u, [i', t''], t) # rest \<and>
              length t' \<le> length t''"
    if "?xml = pre' @ title_elem i' t' @ post'" "id_form i'" "one_line t'" for pre' i' t' post'
    using that rmatch_title_longest [of i' t' post'] by simp
  have "re_search FIND_TITLE_REGEX ?xml \<noteq> None"
  proof -
    have "length pre0 \<le> length ?xml" using arg_cong [OF d0(1), of length] by simp
    moreover have "rmatch FIND_TITLE_REGEX (drop (length pre0) ?xml) \<noteq> []"
      using at [OF d0] by auto
    ultimately show ?thesis by (auto simp: re_search_None_iff)
  qed
  then obtain m where m: "re_search FIND_TITLE_REGEX ?xml = Some m" by blast
  from re_search_Some [OF m] obtain k u g t rest where
    k: "k \<le> length ?xml" "rmatch FIND_TITLE_REGEX (drop k ?xml) = (u, g, t) # rest" "m = u # g"
       "\<forall>j<k. rmatch FIND_TITLE_REGEX (drop j ?xml) = []" by blast
  have mem: "(u, g, t) \<in> set (rmatch FIND_TITLE_REGEX (drop k ?xml))" using k(2) by simp
  have split: "drop k ?xml = u @ t" using rmatch_split [OF mem] .
  from rmatch_title_sound [OF mem] obtain i tt where
    s: "u = title_elem i tt" "g = [i, tt]" "id_form i" "one_line tt" by blast
  have res: "fst (get_pdf_name session aid) = Inr (i, strip tt)"
    using get_pdf_name_ok [of session aid resp, OF assms] m k(3) s(2) by (simp add: m_group_def)
  from strip_spec [of tt] obtain l r where
    tr: "tt = l @ strip tt @ r" "list_all is_space l" "list_all is_space r"
        "strip tt = [] \<or> (\<not> is_space (hd (strip tt)) \<and> \<not> is_space (last (strip tt)))"
    by blast
  have dec: "?xml = take k ?xml @ title_elem i tt @ t"
    using split s(1) by (metis append_take_drop_id)
  have minimal: "\<forall>pre' i' t' post'.
      ?xml = pre' @ title_elem i' t' @ post' \<and> id_form i' \<and> one_line t' \<longrightarrow>
      length (take k ?xml) \<le> length pre' \<and>
      (length pre' = length (take k ?xml) \<longrightarrow> i' = i \<and> length t' \<le> length tt)"
  proof (intro allI impI)
    fix pre' i' t' post'
    assume d': "?xml = pre' @ title_elem i' t' @ post' \<and> id_form i' \<and> one_line t'"
    then have d: "?xml = pre' @ title_elem i' t' @ post'" "id_form i'" "one_line t'" by simp_all
    from at [OF d] obtain u' t'' r' rest' where
      h: "rmatch FIND_TITLE_REGEX (drop (length pre') ?xml) = (u', [i', t''], r') # rest'"
         "length t' \<le> length t''" by blast
    then have "\<not> length pre' < k" using k(4) by auto
    then have a: "length (take k ?xml) \<le> length pre'" using k(1) by simp
    have b: "length pre' = length (take k ?xml) \<longrightarrow> i' = i \<and> length t' \<le> length tt"
    proof
      assume "length pre' = length (take k ?xml)"
      then have "length pre' = k" using k(1) by simp
      with h k(2) s(2) show "i' = i \<and> length t' \<le> length tt" by simp
    qed
    from a b show "length (take k ?xml) \<le> length pre' \<and>
      (length pre' = length (take k ?xml) \<longrightarrow> i' = i \<and> length t' \<le> length tt)" ..
  qed
  show "\<exists>pre i t post l title r.
         fst (get_pdf_name session aid) = Inr (i, title) \<and>
         ?xml = pre @ title_elem i t @ post \<and> id_form i \<and> one_line t \<and>
         t = l @ title @ r \<and> list_all is_space l \<and> list_all is_space r \<and>
         (title = [] \<or> (\<not> is_space (hd title) \<and> \<not> is_space (last title))) \<and>
         (\<forall>pre' i' t' post'.
            ?xml = pre' @ title_elem i' t' @ post' \<and> id_form i' \<and> one_line t' \<longrightarrow>
            length pre \<le> length pre' \<and>
            (length pre' = length pre \<longrightarrow> i' = i \<and> length t' \<le> length t))"
    apply (rule exI [of _ "take k ?xml"])
    apply (rule exI [of _ i])
    apply (rule exI [of _ tt])
    apply (rule exI [of _ t])
    apply (rule exI [of _ l])
    apply (rule exI [of _ "strip tt"])
    apply (rule exI [of _ r])
    using res dec s(3,4) tr minimal apply (intro conjI)
            apply assumption+
    done
next
  let ?xml = "body resp"
  assume none: "\<not> (\<exists>pre i t post. ?xml = pre @ title_elem i t @ post \<and> id_form i \<and> one_line t)"
  have "re_search FIND_TITLE_REGEX ?xml = None"
  proof (rule ccontr)
    assume "re_search FIND_TITLE_REGEX ?xml \<noteq> None"
    then obtain m where m: "re_search FIND_TITLE_REGEX ?xml = Some m" by blast
    from re_search_Some [OF m] obtain k u g t rest where
      k: "rmatch FIND_TITLE_REGEX (drop k ?xml) = (u, g, t) # rest" by blast
    have mem: "(u, g, t) \<in> set (rmatch FIND_TITLE_REGEX (drop k ?xml))" using k by simp
    from rmatch_title_sound [OF mem] obtain i tt where
      s: "u = title_elem i tt" "id_form i" "one_line tt" by blast
    have "?xml = take k ?xml @ title_elem i tt @ t"
      using rmatch_split [OF mem] s(1) by (metis append_take_drop_id)
    with s(2,3) none show False by blast
  qed
  then show "fst (get_pdf_name session aid) = Inl AttributeError"
    using get_pdf_name_ok [of session aid resp, OF assms] by simp
qed

theorem get_pdf_name_first_title_witness:
  "fst (get_pdf_name padded_session ''1706.03762'') =
     Inr (''1706.03762'', ''Attention Is All You Need'') \<and>
   fst (get_pdf_name untitled_session ''1706.03762'') = Inl AttributeError"
proof -
  let ?b1 = "''<html><title>[1706.03762]  Attention Is All You Need '' @ [CHR 0x09] @ '' </title>''"
  let ?r1 = "\<lparr>status = 200, body = ?b1\<rparr>"
  let ?r2 = "\<lparr>status = 200, body = ''<html></html>''\<rparr>"
  have a1: "padded_session (ARXIV_ABS_URL_BASE @ ''1706.03762'') = Inr ?r1"
    by (simp add: padded_session_def)
  have a2: "untitled_session (ARXIV_ABS_URL_BASE @ ''1706.03762'') = Inr ?r2"
    by (simp add: untitled_session_def)
  have s1: "status ?r1 < 400" and s2: "status ?r2 < 400" by simp_all
  have "body ?r1 = ''<html>'' @
          title_elem ''1706.03762'' (''  Attention Is All You Need '' @ [CHR 0x09] @ '' '') @ [] \<and>
        id_form ''1706.03762'' \<and>
        one_line (''  Attention Is All You Need '' @ [CHR 0x09] @ '' '')"
    by (simp add: title_elem_def id_form_def one_line_def)
  then have e1: "\<exists>pre i t post. body ?r1 = pre @ title_elem i t @ post \<and> id_form i \<and> one_line t"
    by blast
  have e2: "\<not> (\<exists>pre i t post. body ?r2 = pre @ title_elem i t @ post \<and> id_form i \<and> one_line t)"
  proof
    assume "\<exists>pre i t post. body ?r2 = pre @ title_elem i t @ post \<and> id_form i \<and> one_line t"
    then obtain pre i t post where d: "body ?r2 = pre @ title_elem i t @ post" by blast
    from arg_cong [OF d, of length] show False by (simp add: title_elem_def)
  qed
  from get_pdf_name_first_title [of padded_session "''1706.03762''" ?r1, OF a1 s1] e1
  have "\<exists>i title. fst (get_pdf_name padded_session ''1706.03762'') = Inr (i, title) \<and>
          (title = [] \<or> (\<not> is_space (hd title) \<and> \<not> is_space (last title)))" by blast
  moreover have "fst (get_pdf_name padded_session ''1706.03762'') =
     Inr (''1706.03762'', ''Attention Is All You Need'')" by code_simp
  moreover from get_pdf_name_first_title [of untitled_session "''1706.03762''" ?r2, OF a2 s2] e2
  have "fst (get_pdf_name untitled_session ''1706.03762'') = Inl AttributeError" by blast
  ultimately show ?thesis by blast
qed

text \<open>
  With two closing tags on one line the title text runs to the last of them.
\<close>

lemma get_pdf_name_greedy_example:
  "fst (get_pdf_name (\<lambda>url. Inr \<lparr>status = 200, body = ''<title>[1.2] A</title> x </title>''\<rparr>) ''1.2'') =
     Inr (''1.2'', ''A</title> x'')"
  by code_simp

end
